theory Spec2Isabelle
  imports Main "HOL-Library.Word" "HOL-Library.Log_Nat"
begin

section \<open>Brightness adjustment on 8-bit pixels (03\_Examples/04\_image\_processing)\<close>

text \<open>
  An image is the byte array \<^verbatim>\<open>uint8_t* image\<close>, modelled by the list of its bytes.
  \<^verbatim>\<open>size\<close> and the loop counter are C++ \<^verbatim>\<open>int\<close>s, modelled as \<^typ>\<open>int\<close> (the counter
  never exceeds \<^verbatim>\<open>size\<close>, so it cannot overflow); the variables \<^verbatim>\<open>image\<close> and
  \<^verbatim>\<open>size\<close> are written \<open>img\<close> and \<open>sz\<close>. \<^verbatim>\<open>brightness\<close> is an \<^typ>\<open>int\<close> as well: the sum
  \<^verbatim>\<open>image[i] + brightness\<close> overflows a 32-bit \<^verbatim>\<open>int\<close> only for a brightness above
  \<open>2^31 - 256\<close>, which is left out. An access outside the array is undefined behaviour in
  C++; the model returns \<open>None\<close> there.
\<close>

type_synonym uint8_t = "8 word"

text \<open>One iteration body of the scalar loop:
  \<^verbatim>\<open>int value = static_cast<int>(image[i]) + brightness;
  image[i] = static_cast<uint8_t>(std::min(255, std::max(0, value)));\<close>\<close>

definition brighten_pixel :: "uint8_t \<Rightarrow> int \<Rightarrow> uint8_t" where
  "brighten_pixel p brightness =
     (let value = uint p + brightness in word_of_int (min 255 (max 0 value)))"

text \<open>\<^verbatim>\<open>for (; i < size; i++) { ... }\<close>: the loop of \<^verbatim>\<open>adjust_brightness_scalar\<close> (from
  \<open>i = 0\<close>) and the remainder loop of \<^verbatim>\<open>adjust_brightness_simd\<close> (from where the
  vector loop stopped); the two loops have the same text in the source.\<close>

function brightness_scalar_loop :: "int \<Rightarrow> uint8_t list \<Rightarrow> int \<Rightarrow> int \<Rightarrow> uint8_t list option" where
  "brightness_scalar_loop i img sz brightness =
     (if i < sz then
        (if 0 \<le> i \<and> i < int (length img)
         then brightness_scalar_loop (i + 1)
                (img[nat i := brighten_pixel (img ! nat i) brightness]) sz brightness
         else None)
      else Some img)"
  by pat_completeness auto
termination
  by (relation "measure (\<lambda>(i, img, sz, brightness). nat (sz - i))") auto

definition adjust_brightness_scalar :: "uint8_t list \<Rightarrow> int \<Rightarrow> int \<Rightarrow> uint8_t list option" where
  "adjust_brightness_scalar img sz brightness = brightness_scalar_loop 0 img sz brightness"

text \<open>The AVX2 intrinsics on 32 unsigned bytes that the vector path uses.\<close>

definition mm256_set1_epi8 :: "uint8_t \<Rightarrow> uint8_t list" where
  "mm256_set1_epi8 b = replicate 32 b"

definition mm256_loadu_si256 :: "uint8_t list \<Rightarrow> nat \<Rightarrow> uint8_t list" where
  "mm256_loadu_si256 mem i = take 32 (drop i mem)"

definition mm256_storeu_si256 :: "uint8_t list \<Rightarrow> nat \<Rightarrow> uint8_t list \<Rightarrow> uint8_t list" where
  "mm256_storeu_si256 mem i v = take i mem @ v @ drop (i + 32) mem"

text \<open>Unsigned saturating byte addition, one lane of \<^verbatim>\<open>_mm256_adds_epu8\<close>.\<close>

definition adds_epu8 :: "uint8_t \<Rightarrow> uint8_t \<Rightarrow> uint8_t" where
  "adds_epu8 a b = (if 255 < unat a + unat b then 255 else a + b)"

definition mm256_adds_epu8 :: "uint8_t list \<Rightarrow> uint8_t list \<Rightarrow> uint8_t list" where
  "mm256_adds_epu8 a b = map2 adds_epu8 a b"

text \<open>\<^verbatim>\<open>for (; i <= size - 32; i += 32)\<close>: load 32 bytes, add the brightness vector with
  saturation, store them back. Returns the counter with the image, for the remainder loop.\<close>

function brightness_simd_loop ::
  "int \<Rightarrow> uint8_t list \<Rightarrow> int \<Rightarrow> uint8_t list \<Rightarrow> (int \<times> uint8_t list) option" where
  "brightness_simd_loop i img sz brightness_vec =
     (if i \<le> sz - 32 then
        (if 0 \<le> i \<and> i + 32 \<le> int (length img)
         then (let pixels = mm256_loadu_si256 img (nat i);
                   result = mm256_adds_epu8 pixels brightness_vec
               in brightness_simd_loop (i + 32) (mm256_storeu_si256 img (nat i) result)
                    sz brightness_vec)
         else None)
      else Some (i, img))"
  by pat_completeness auto
termination
  by (relation "measure (\<lambda>(i, img, sz, brightness_vec). nat (sz - i))") auto

text \<open>\<^verbatim>\<open>static_cast<char>(brightness)\<close> keeps the low eight bits of the \<^verbatim>\<open>int\<close>. The
  source also builds \<^verbatim>\<open>zero_vec\<close> and \<^verbatim>\<open>max_vec\<close> and never uses them.\<close>

definition adjust_brightness_simd :: "uint8_t list \<Rightarrow> int \<Rightarrow> int \<Rightarrow> uint8_t list option" where
  "adjust_brightness_simd img sz brightness =
     (let brightness_vec = mm256_set1_epi8 (word_of_int brightness)
      in case brightness_simd_loop 0 img sz brightness_vec of
           None \<Rightarrow> None
         | Some (i, img') \<Rightarrow> brightness_scalar_loop i img' sz brightness)"


section \<open>Single-precision arithmetic\<close>

text \<open>
  The kernels compute on \<^verbatim>\<open>float\<close>. The arithmetic they use is passed to the model as a
  record of operations, so that one translation of the code can be read with exact
  arithmetic, with binary32 rounding, or over any other carrier: a statement proved for
  every such record fixes the order in which the code applies the operations.
  \<open>ffma a b c\<close> is the fused \<open>a * b + c\<close> of \<^verbatim>\<open>_mm256_fmadd_ps\<close>.
\<close>

record 'a float_ops =
  fadd :: "'a \<Rightarrow> 'a \<Rightarrow> 'a"
  fmul :: "'a \<Rightarrow> 'a \<Rightarrow> 'a"
  ffma :: "'a \<Rightarrow> 'a \<Rightarrow> 'a \<Rightarrow> 'a"
  fzero :: "'a"

definition exact_ops :: "rat float_ops" where
  "exact_ops = \<lparr>fadd = (\<lambda>a b. a + b), fmul = (\<lambda>a b. a * b),
                 ffma = (\<lambda>a b c. a * b + c), fzero = 0\<rparr>"

text \<open>
  Finite binary32 values are the rationals they denote. \<open>fl32\<close> rounds a rational to the
  nearest binary32 value, ties to even (the default rounding of SSE/AVX), with the
  subnormal range below \<open>2^-126\<close>; overflow to infinity (magnitudes from \<open>2^128\<close> on) and
  NaN are outside this model.
\<close>

definition pow2 :: "int \<Rightarrow> rat" where
  "pow2 e = (if 0 \<le> e then 2 ^ nat e else 1 / 2 ^ nat (- e))"

definition ilog2 :: "rat \<Rightarrow> int" where
  "ilog2 x = (let (p, q) = quotient_of \<bar>x\<bar>; d = bitlen p - bitlen q
              in if pow2 d \<le> \<bar>x\<bar> then d else d - 1)"

definition round_half_even :: "rat \<Rightarrow> int" where
  "round_half_even y =
     (let f = \<lfloor>y\<rfloor>; r = y - of_int f
      in if r < 1 / 2 then f else if 1 / 2 < r then f + 1 else if even f then f else f + 1)"

definition fl32 :: "rat \<Rightarrow> rat" where
  "fl32 x = (if x = 0 then 0 else
     let e = max (ilog2 x) (- 126); ulp = pow2 (e - 23)
     in of_int (round_half_even (x / ulp)) * ulp)"

definition binary32_ops :: "rat float_ops" where
  "binary32_ops = \<lparr>fadd = (\<lambda>a b. fl32 (a + b)), fmul = (\<lambda>a b. fl32 (a * b)),
                    ffma = (\<lambda>a b c. fl32 (a * b + c)), fzero = 0\<rparr>"

section \<open>Vector registers and intrinsics on float lanes\<close>

text \<open>
  A register \<^verbatim>\<open>__m256\<close> is the list of its 8 lanes, lane 0 first; \<^verbatim>\<open>__m128\<close> has 4
  lanes. A \<^verbatim>\<open>float\<close> array in memory is the list of its elements.
\<close>

definition mm256_setzero_ps :: "'a float_ops \<Rightarrow> 'a list" where
  "mm256_setzero_ps ops = replicate 8 (fzero ops)"

definition mm256_set1_ps :: "'a \<Rightarrow> 'a list" where
  "mm256_set1_ps a = replicate 8 a"

definition mm256_set_ps :: "'a \<Rightarrow> 'a \<Rightarrow> 'a \<Rightarrow> 'a \<Rightarrow> 'a \<Rightarrow> 'a \<Rightarrow> 'a \<Rightarrow> 'a \<Rightarrow> 'a list" where
  "mm256_set_ps e7 e6 e5 e4 e3 e2 e1 e0 = [e0, e1, e2, e3, e4, e5, e6, e7]"

definition mm256_loadu_ps :: "'a list \<Rightarrow> nat \<Rightarrow> 'a list" where
  "mm256_loadu_ps mem off = take 8 (drop off mem)"

definition mm256_store_ps :: "'a list \<Rightarrow> 'a list \<Rightarrow> 'a list" where
  "mm256_store_ps mem a = a @ drop 8 mem"

definition mm256_add_ps :: "'a float_ops \<Rightarrow> 'a list \<Rightarrow> 'a list \<Rightarrow> 'a list" where
  "mm256_add_ps ops a b = map2 (fadd ops) a b"

definition mm256_mul_ps :: "'a float_ops \<Rightarrow> 'a list \<Rightarrow> 'a list \<Rightarrow> 'a list" where
  "mm256_mul_ps ops a b = map2 (fmul ops) a b"

definition mm256_fmadd_ps :: "'a float_ops \<Rightarrow> 'a list \<Rightarrow> 'a list \<Rightarrow> 'a list \<Rightarrow> 'a list" where
  "mm256_fmadd_ps ops a b c = map (\<lambda>(x, y, z). ffma ops x y z) (zip a (zip b c))"

definition mm_setr_ps :: "'a \<Rightarrow> 'a \<Rightarrow> 'a \<Rightarrow> 'a \<Rightarrow> 'a list" where
  "mm_setr_ps e0 e1 e2 e3 = [e0, e1, e2, e3]"

definition mm_mul_ps :: "'a float_ops \<Rightarrow> 'a list \<Rightarrow> 'a list \<Rightarrow> 'a list" where
  "mm_mul_ps ops a b = map2 (fmul ops) a b"

text \<open>\<^verbatim>\<open>_mm_hadd_ps(a, b)\<close> is \<open>(a0 + a1, a2 + a3, b0 + b1, b2 + b3)\<close>.\<close>

definition mm_hadd_ps :: "'a float_ops \<Rightarrow> 'a list \<Rightarrow> 'a list \<Rightarrow> 'a list" where
  "mm_hadd_ps ops a b =
     [fadd ops (a ! 0) (a ! 1), fadd ops (a ! 2) (a ! 3),
      fadd ops (b ! 0) (b ! 1), fadd ops (b ! 2) (b ! 3)]"

definition mm_cvtss_f32 :: "'a list \<Rightarrow> 'a" where
  "mm_cvtss_f32 a = a ! 0"

section \<open>Dot products (02\_Computations/02\_dot\_product)\<close>

text \<open>\<^verbatim>\<open>struct Vec3 { float x, y, z; }\<close> with its scalar dot product
  \<^verbatim>\<open>x * other.x + y * other.y + z * other.z\<close>, which C++ parses as
  \<open>(x * x' + y * y') + z * z'\<close>.\<close>

datatype 'a Vec3 = Vec3 'a 'a 'a

fun Vec3_dot :: "'a float_ops \<Rightarrow> 'a Vec3 \<Rightarrow> 'a Vec3 \<Rightarrow> 'a" where
  "Vec3_dot ops (Vec3 x y z) (Vec3 other_x other_y other_z) =
     fadd ops (fadd ops (fmul ops x other_x) (fmul ops y other_y)) (fmul ops z other_z)"

text \<open>\<^verbatim>\<open>struct Vec3Array\<close>, the structure-of-arrays layout: three arrays of equal length.\<close>

datatype 'a Vec3Array = Vec3Array (arr_x: "'a list") (arr_y: "'a list") (arr_z: "'a list")

definition Vec3Array_ok :: "'a Vec3Array \<Rightarrow> nat \<Rightarrow> bool" where
  "Vec3Array_ok v n = (length (arr_x v) = n \<and> length (arr_y v) = n \<and> length (arr_z v) = n)"

definition simdDotProductSoA8 :: "'a float_ops \<Rightarrow> 'a Vec3Array \<Rightarrow> 'a Vec3Array \<Rightarrow> nat \<Rightarrow> 'a list" where
  "simdDotProductSoA8 ops vectors1 vectors2 offset =
     (let vx1 = mm256_loadu_ps (arr_x vectors1) offset;
          vy1 = mm256_loadu_ps (arr_y vectors1) offset;
          vz1 = mm256_loadu_ps (arr_z vectors1) offset;
          vx2 = mm256_loadu_ps (arr_x vectors2) offset;
          vy2 = mm256_loadu_ps (arr_y vectors2) offset;
          vz2 = mm256_loadu_ps (arr_z vectors2) offset;
          result = mm256_mul_ps ops vx1 vx2;
          result = mm256_fmadd_ps ops vy1 vy2 result;
          result = mm256_fmadd_ps ops vz1 vz2 result
      in result)"

definition simdDotProductSingle :: "'a float_ops \<Rightarrow> 'a Vec3 \<Rightarrow> 'a Vec3 \<Rightarrow> 'a" where
  "simdDotProductSingle ops v1 v2 =
     (case (v1, v2) of (Vec3 v1x v1y v1z, Vec3 v2x v2y v2z) \<Rightarrow>
        let vec1 = mm_setr_ps v1x v1y v1z (fzero ops);
            vec2 = mm_setr_ps v2x v2y v2z (fzero ops);
            mul = mm_mul_ps ops vec1 vec2;
            hadd1 = mm_hadd_ps ops mul mul;
            hadd2 = mm_hadd_ps ops hadd1 hadd1
        in mm_cvtss_f32 hadd2)"

text \<open>The vector loop of \<^verbatim>\<open>simdDotProductLarge\<close>, from \<^verbatim>\<open>sum = _mm256_setzero_ps()\<close>:
  \<^verbatim>\<open>for (size_t i = 0; i < blocks; i++) sum = _mm256_add_ps(sum, dot8);\<close>\<close>

definition simdDotProductLarge_loop ::
  "'a float_ops \<Rightarrow> 'a Vec3Array \<Rightarrow> 'a Vec3Array \<Rightarrow> nat \<Rightarrow> 'a list" where
  "simdDotProductLarge_loop ops vectors1 vectors2 blocks =
     foldl (\<lambda>sum i.
              let dot8 = simdDotProductSoA8 ops vectors1 vectors2 (i * 8)
              in mm256_add_ps ops sum dot8)
       (mm256_setzero_ps ops) [0..<blocks]"

text \<open>The accumulator \<^verbatim>\<open>sum\<close> that \<^verbatim>\<open>simdDotProductLarge\<close> holds when the loop is left.\<close>

definition simdDotProductLarge_sum :: "'a float_ops \<Rightarrow> 'a Vec3Array \<Rightarrow> 'a Vec3Array \<Rightarrow> 'a list" where
  "simdDotProductLarge_sum ops vectors1 vectors2 =
     (let sz = length (arr_x vectors1);
          blocks = sz div 8
      in simdDotProductLarge_loop ops vectors1 vectors2 blocks)"

text \<open>The rest of \<^verbatim>\<open>simdDotProductLarge\<close>: the accumulator is stored to
  \<^verbatim>\<open>result_array\<close>, \<^verbatim>\<open>for (int i = 0; i < 8; i++) total += result_array[i];\<close> sums it
  from \<^verbatim>\<open>total = 0.0f\<close>, and
  \<^verbatim>\<open>for (size_t i = blocks * 8; i < size; i++) total += v1.dot(v2);\<close> adds the remaining
  vectors.\<close>

definition simdDotProductLarge :: "'a float_ops \<Rightarrow> 'a Vec3Array \<Rightarrow> 'a Vec3Array \<Rightarrow> 'a" where
  "simdDotProductLarge ops vectors1 vectors2 =
     (let sz = length (arr_x vectors1);
          blocks = sz div 8;
          result_array = simdDotProductLarge_sum ops vectors1 vectors2;
          total = foldl (\<lambda>total i. fadd ops total (result_array ! i)) (fzero ops) [0..<8];
          total = foldl (\<lambda>total i.
                     let v1 = Vec3 (arr_x vectors1 ! i) (arr_y vectors1 ! i) (arr_z vectors1 ! i);
                         v2 = Vec3 (arr_x vectors2 ! i) (arr_y vectors2 ! i) (arr_z vectors2 ! i)
                     in fadd ops total (Vec3_dot ops v1 v2))
                    total [blocks * 8..<sz]
      in total)"

text \<open>
  The reduction discipline in the words of the specification, for comparison with the
  code: the \<open>W = 8\<close> lanes of the final accumulator are collapsed by pairwise (tree)
  summation, and the scalar remainder contributions are added after that.
\<close>

definition pairwise_sum8 :: "'a float_ops \<Rightarrow> 'a list \<Rightarrow> 'a" where
  "pairwise_sum8 ops a =
     fadd ops (fadd ops (fadd ops (a ! 0) (a ! 1)) (fadd ops (a ! 2) (a ! 3)))
              (fadd ops (fadd ops (a ! 4) (a ! 5)) (fadd ops (a ! 6) (a ! 7)))"

definition spec_reduce_pairwise :: "'a float_ops \<Rightarrow> 'a Vec3Array \<Rightarrow> 'a Vec3Array \<Rightarrow> 'a" where
  "spec_reduce_pairwise ops vectors1 vectors2 =
     (let sz = length (arr_x vectors1);
          blocks = sz div 8;
          acc = simdDotProductLarge_sum ops vectors1 vectors2
      in foldl (\<lambda>total i.
                  fadd ops total
                    (Vec3_dot ops (Vec3 (arr_x vectors1 ! i) (arr_y vectors1 ! i) (arr_z vectors1 ! i))
                                  (Vec3 (arr_x vectors2 ! i) (arr_y vectors2 ! i) (arr_z vectors2 ! i))))
           (pairwise_sum8 ops acc) [blocks * 8..<sz])"

text \<open>The value that lane \<open>k\<close> of the vector kernel \<^verbatim>\<open>simdDotProductSoA8\<close> holds for
  element \<open>k\<close>: a product followed by two fused multiply-adds.\<close>

definition fma_dot :: "'a float_ops \<Rightarrow> 'a Vec3Array \<Rightarrow> 'a Vec3Array \<Rightarrow> nat \<Rightarrow> 'a" where
  "fma_dot ops vectors1 vectors2 k =
     ffma ops (arr_z vectors1 ! k) (arr_z vectors2 ! k)
       (ffma ops (arr_y vectors1 ! k) (arr_y vectors2 ! k)
          (fmul ops (arr_x vectors1 ! k) (arr_x vectors2 ! k)))"

section \<open>Conditional code (03\_Examples/01\_conditional\_code)\<close>

text \<open>
  The lambdas of \<^verbatim>\<open>main\<close> capture the buffers \<^verbatim>\<open>data1\<close>, \<^verbatim>\<open>data2\<close>, the registers
  \<^verbatim>\<open>vector1\<close>, \<^verbatim>\<open>vector2\<close> loaded from them and the output buffers; the model takes them
  as arguments and returns the output buffer. Values are the rationals the floats denote;
  comparison, minimum, maximum and selection do not round. NaN is outside this model.
  \<^verbatim>\<open>std::min(a, b)\<close> is \<open>b < a ? b : a\<close> and \<^verbatim>\<open>std::max(a, b)\<close> is \<open>a < b ? b : a\<close>;
  a lane of \<^verbatim>\<open>_mm256_min_ps(a, b)\<close> is \<open>a < b ? a : b\<close> and of \<^verbatim>\<open>_mm256_max_ps(a, b)\<close> is
  \<open>a > b ? a : b\<close>.
\<close>

definition std_min :: "rat \<Rightarrow> rat \<Rightarrow> rat" where
  "std_min a b = (if b < a then b else a)"

definition std_max :: "rat \<Rightarrow> rat \<Rightarrow> rat" where
  "std_max a b = (if a < b then b else a)"

definition mm256_min_ps :: "rat list \<Rightarrow> rat list \<Rightarrow> rat list" where
  "mm256_min_ps a b = map2 (\<lambda>x y. if x < y then x else y) a b"

definition mm256_max_ps :: "rat list \<Rightarrow> rat list \<Rightarrow> rat list" where
  "mm256_max_ps a b = map2 (\<lambda>x y. if y < x then x else y) a b"

definition scalar_clamp :: "rat list \<Rightarrow> rat list \<Rightarrow> rat list" where
  "scalar_clamp data2 result_scalar =
     foldl (\<lambda>result_scalar i. result_scalar[i := std_max 5 (std_min 30 (data2 ! i))])
       result_scalar [0..<8]"

definition simd_clamp :: "rat list \<Rightarrow> rat list \<Rightarrow> rat list" where
  "simd_clamp vector2 result_simd =
     (let min_val = mm256_set1_ps 5;
          max_val = mm256_set1_ps 30;
          upper_clamped = mm256_min_ps vector2 max_val;
          result = mm256_max_ps upper_clamped min_val
      in mm256_store_ps result_simd result)"

text \<open>
  A mask register holds one 32-bit pattern per lane; a comparison sets a lane to all ones
  or to zero, and the consumers (\<^verbatim>\<open>blendv\<close>, \<^verbatim>\<open>maskload\<close>, \<^verbatim>\<open>maskstore\<close>) look at the
  most significant bit of each lane only. A mask variable is written \<open>msk\<close>. \<^verbatim>\<open>_CMP_GT_OQ\<close> is the ordered \<open>a > b\<close>.
\<close>

type_synonym m256_mask = "32 word list"

definition mask_set :: "32 word \<Rightarrow> bool" where
  "mask_set k = bit k 31"

definition mm256_cmp_ps_GT_OQ :: "rat list \<Rightarrow> rat list \<Rightarrow> m256_mask" where
  "mm256_cmp_ps_GT_OQ a b = map2 (\<lambda>x y. if y < x then - 1 else 0) a b"

definition mm256_and_ps_mask :: "m256_mask \<Rightarrow> m256_mask \<Rightarrow> m256_mask" where
  "mm256_and_ps_mask a b = map2 (\<lambda>x y. and x y) a b"

text \<open>\<^verbatim>\<open>_mm256_blendv_ps(a, b, mask)\<close>: lane \<open>i\<close> is \<open>b[i]\<close> where the mask lane is set
  and \<open>a[i]\<close> elsewhere.\<close>

definition mm256_blendv_ps :: "'a list \<Rightarrow> 'a list \<Rightarrow> m256_mask \<Rightarrow> 'a list" where
  "mm256_blendv_ps a b msk = map (\<lambda>i. if mask_set (msk ! i) then b ! i else a ! i) [0..<8]"

definition scalar_complex :: "rat list \<Rightarrow> rat list \<Rightarrow> rat list \<Rightarrow> rat list" where
  "scalar_complex data1 data2 result_scalar =
     foldl (\<lambda>result_scalar i.
              if 0 < data2 ! i \<and> data1 ! i < data2 ! i
              then result_scalar[i := data2 ! i]
              else result_scalar[i := 0])
       result_scalar [0..<8]"

definition simd_complex :: "rat list \<Rightarrow> rat list \<Rightarrow> rat list \<Rightarrow> rat list" where
  "simd_complex vector1 vector2 result_simd =
     (let zero = mm256_setzero_ps exact_ops;
          pos_mask = mm256_cmp_ps_GT_OQ vector2 zero;
          gt_mask = mm256_cmp_ps_GT_OQ vector2 vector1;
          combined = mm256_and_ps_mask pos_mask gt_mask;
          result = mm256_blendv_ps zero vector2 combined
      in mm256_store_ps result_simd result)"

section \<open>Loading and storing (01\_Basics/04\_loading\_data)\<close>

text \<open>\<^verbatim>\<open>_mm256_set_epi32(e7, ..., e0)\<close> lists the lanes from the highest down.\<close>

definition mm256_set_epi32 ::
  "32 word \<Rightarrow> 32 word \<Rightarrow> 32 word \<Rightarrow> 32 word \<Rightarrow> 32 word \<Rightarrow> 32 word \<Rightarrow> 32 word \<Rightarrow> 32 word \<Rightarrow> m256_mask" where
  "mm256_set_epi32 e7 e6 e5 e4 e3 e2 e1 e0 = [e0, e1, e2, e3, e4, e5, e6, e7]"

text \<open>\<^verbatim>\<open>_mm256_maskload_ps(mem, mask)\<close> reads the lanes whose mask lane is set and
  zeroes the others; \<^verbatim>\<open>_mm256_maskstore_ps(mem, mask, a)\<close> writes the lanes whose mask
  lane is set and does not touch the others. The zero of the lane type is \<open>0.0f\<close>: the
  rational 0, or the all-zero bit pattern when lanes are read as \<^typ>\<open>32 word\<close>.\<close>

definition mm256_maskload_ps :: "'a::zero list \<Rightarrow> m256_mask \<Rightarrow> 'a list" where
  "mm256_maskload_ps mem msk = map (\<lambda>i. if mask_set (msk ! i) then mem ! i else 0) [0..<8]"

definition mm256_maskstore_ps :: "'a list \<Rightarrow> m256_mask \<Rightarrow> 'a list \<Rightarrow> 'a list" where
  "mm256_maskstore_ps mem msk a =
     foldl (\<lambda>mem i. if mask_set (msk ! i) then mem[i := a ! i] else mem) mem [0..<8]"

text \<open>Section 2 of \<^verbatim>\<open>main\<close>: the mask selecting lanes 0, 2, 4 and 6, and the masked
  load from \<^verbatim>\<open>aligned_data\<close>.\<close>

definition masked_load_section :: "'a::zero list \<Rightarrow> 'a list" where
  "masked_load_section aligned_data =
     (let msk = mm256_set_epi32 0 (- 1) 0 (- 1) 0 (- 1) 0 (- 1);
          masked_vec = mm256_maskload_ps aligned_data msk
      in masked_vec)"

text \<open>Section 4 of \<^verbatim>\<open>main\<close>: \<^verbatim>\<open>aligned_data\<close> is reset to zero, then \<^verbatim>\<open>test_vec\<close> is
  stored under the mask selecting lanes 1, 3, 5 and 7.\<close>

definition masked_store_section :: "'a::zero list \<Rightarrow> 'a list \<Rightarrow> 'a list" where
  "masked_store_section aligned_data test_vec =
     (let aligned_data = foldl (\<lambda>aligned_data i. aligned_data[i := 0]) aligned_data [0..<8];
          mask2 = mm256_set_epi32 (- 1) 0 (- 1) 0 (- 1) 0 (- 1) 0
      in mm256_maskstore_ps aligned_data mask2 test_vec)"

section \<open>Aligned allocation (include/simd\_utils.h)\<close>

text \<open>
  \<^verbatim>\<open>template<typename T> T* aligned_alloc(size_t size, size_t alignment = 32)\<close>.
  \<^verbatim>\<open>size_t\<close> and addresses are 64-bit words, so \<^verbatim>\<open>size * sizeof(T)\<close> wraps around.
  \<^verbatim>\<open>posix_memalign\<close> belongs to the C library, not to this repository: it is a parameter
  that maps the alignment and the byte count to its return value and the pointer it
  stores through \<^verbatim>\<open>&ptr\<close>. \<^verbatim>\<open>throw std::bad_alloc()\<close> is the left summand of the result.
\<close>

type_synonym size_t = "64 word"

datatype exception = bad_alloc

definition aligned_alloc ::
  "(size_t \<Rightarrow> size_t \<Rightarrow> int \<times> size_t) \<Rightarrow> size_t \<Rightarrow> size_t \<Rightarrow> size_t \<Rightarrow> exception + size_t" where
  "aligned_alloc posix_memalign sizeof_T sz alignment =
     (case posix_memalign alignment (sz * sizeof_T) of
        (rc, ptr) \<Rightarrow> if rc \<noteq> 0 then Inl bad_alloc else Inr ptr)"

text \<open>
  What POSIX promises of \<^verbatim>\<open>posix_memalign\<close>: it returns 0 only if the alignment is a power
  of two and a multiple of \<^verbatim>\<open>sizeof(void *)\<close>, and then the address it stores is a
  multiple of the alignment; otherwise it returns \<^verbatim>\<open>EINVAL\<close> or \<^verbatim>\<open>ENOMEM\<close>.
\<close>

definition valid_alignment :: "size_t \<Rightarrow> bool" where
  "valid_alignment alignment =
     (alignment \<noteq> 0 \<and> and alignment (alignment - 1) = 0 \<and> alignment mod 8 = 0)"

definition posix_memalign_contract :: "(size_t \<Rightarrow> size_t \<Rightarrow> int \<times> size_t) \<Rightarrow> bool" where
  "posix_memalign_contract posix_memalign =
     (\<forall>alignment n. fst (posix_memalign alignment n) = 0 \<longrightarrow>
        valid_alignment alignment \<and> unat (snd (posix_memalign alignment n)) mod unat alignment = 0)"

text \<open>An allocator that satisfies the contract, to run \<^verbatim>\<open>aligned_alloc\<close> on: it serves
  every request from the start of one arena of \<open>2^20\<close> bytes that begins after address
  \<open>0x10008\<close>, with \<^verbatim>\<open>EINVAL = 22\<close> and \<^verbatim>\<open>ENOMEM = 12\<close>.\<close>

definition arena_memalign :: "size_t \<Rightarrow> size_t \<Rightarrow> int \<times> size_t" where
  "arena_memalign alignment n =
     (if \<not> valid_alignment alignment then (22, 0)
      else let p = ((65544 + unat alignment - 1) div unat alignment) * unat alignment
           in if 1114112 < p + unat n then (12, 0) else (0, of_nat p))"

section \<open>Benchmark harness (include/simd\_utils.h)\<close>

text \<open>
  \<^verbatim>\<open>benchmark_comparison(label, scalar_func, simd_func, iterations)\<close>. The two callables
  act on the program state they capture, a value of type \<open>'w\<close>. The harness state adds
  the trace of what the harness did, oldest event first; the clock reading is a function
  of that trace. Clock ticks are nanoseconds and
  \<^verbatim>\<open>duration_cast<microseconds>\<close> truncates towards zero. The printed lines are the
  fields of the report.
\<close>

datatype event = Call_scalar | Call_simd | Clock_now

record 'w bench_state =
  world :: 'w
  trace :: "event list"

definition call_scalar_func :: "('w \<Rightarrow> 'w) \<Rightarrow> 'w bench_state \<Rightarrow> 'w bench_state" where
  "call_scalar_func scalar_func s =
     s\<lparr>world := scalar_func (world s), trace := trace s @ [Call_scalar]\<rparr>"

definition call_simd_func :: "('w \<Rightarrow> 'w) \<Rightarrow> 'w bench_state \<Rightarrow> 'w bench_state" where
  "call_simd_func simd_func s =
     s\<lparr>world := simd_func (world s), trace := trace s @ [Call_simd]\<rparr>"

definition clock_now :: "(event list \<Rightarrow> int) \<Rightarrow> 'w bench_state \<Rightarrow> int \<times> 'w bench_state" where
  "clock_now clock s = (clock (trace s), s\<lparr>trace := trace s @ [Clock_now]\<rparr>)"

text \<open>\<^verbatim>\<open>for (int i = 0; i < iterations; i++) body();\<close>\<close>

function timed_loop :: "int \<Rightarrow> int \<Rightarrow> ('s \<Rightarrow> 's) \<Rightarrow> 's \<Rightarrow> 's" where
  "timed_loop i iterations body s =
     (if i < iterations then timed_loop (i + 1) iterations body (body s) else s)"
  by pat_completeness auto
termination
  by (relation "measure (\<lambda>(i, iterations, body, s). nat (iterations - i))") auto

definition duration_cast_microseconds :: "int \<Rightarrow> int" where
  "duration_cast_microseconds d = sgn d * (\<bar>d\<bar> div 1000)"

text \<open>The quotient of two \<^verbatim>\<open>double\<close>s converted from tick counts: the exact quotient
  stands for its rounding to \<^verbatim>\<open>double\<close>; a zero divisor gives an infinity or NaN.\<close>

datatype double = Finite rat | Pos_inf | Neg_inf | NaN

definition double_div :: "int \<Rightarrow> int \<Rightarrow> double" where
  "double_div a b =
     (if b \<noteq> 0 then Finite (of_int a / of_int b)
      else if a = 0 then NaN else if 0 < a then Pos_inf else Neg_inf)"

record report =
  label :: string
  scalar_micros :: int
  simd_micros :: int
  speedup :: double

definition benchmark_comparison ::
  "(event list \<Rightarrow> int) \<Rightarrow> string \<Rightarrow> ('w \<Rightarrow> 'w) \<Rightarrow> ('w \<Rightarrow> 'w) \<Rightarrow> int \<Rightarrow> 'w bench_state
     \<Rightarrow> report \<times> 'w bench_state" where
  "benchmark_comparison clock lbl scalar_func simd_func iterations s =
     (let s = call_scalar_func scalar_func s;
          s = call_simd_func simd_func s;
          (scalar_start, s) = clock_now clock s;
          s = timed_loop 0 iterations (call_scalar_func scalar_func) s;
          (scalar_end, s) = clock_now clock s;
          scalar_duration = duration_cast_microseconds (scalar_end - scalar_start);
          (simd_start, s) = clock_now clock s;
          s = timed_loop 0 iterations (call_simd_func simd_func) s;
          (simd_end, s) = clock_now clock s;
          simd_duration = duration_cast_microseconds (simd_end - simd_start);
          speedup = double_div scalar_duration simd_duration
      in (\<lparr>label = lbl, scalar_micros = scalar_duration, simd_micros = simd_duration,
           speedup = speedup\<rparr>, s))"

section \<open>Proofs: brightness adjustment\<close>

declare brightness_scalar_loop.simps [simp del] brightness_simd_loop.simps [simp del]

lemma adds_epu8_brighten:
  assumes "0 \<le> b" "b \<le> 255"
  shows "adds_epu8 p (word_of_int b) = brighten_pixel p b"
proof -
  have ub: "uint (word_of_int b :: 8 word) = b"
    using assms by (simp add: uint_word_of_int)
  have nb: "unat (word_of_int b :: 8 word) = nat b"
    using ub by (simp add: unat_eq_nat_uint)
  have up: "0 \<le> uint p" by simp
  have sum: "int (unat p + nat b) = uint p + b"
    using assms by simp
  show ?thesis
  proof (cases "255 < uint p + b")
    case True
    then have c: "255 < unat p + nat b" using sum by linarith
    have m: "min 255 (max 0 (uint p + b)) = 255" using True by simp
    have "brighten_pixel p b = 255" unfolding brighten_pixel_def Let_def m by simp
    moreover have "adds_epu8 p (word_of_int b) = 255" unfolding adds_epu8_def nb using c by simp
    ultimately show ?thesis by simp
  next
    case False
    then have c: "\<not> 255 < unat p + nat b" using sum by linarith
    have m: "min 255 (max 0 (uint p + b)) = uint p + b" using False up assms by simp
    have "brighten_pixel p b = word_of_int (uint p + b)" unfolding brighten_pixel_def Let_def m by simp
    also have "\<dots> = p + word_of_int b" by simp
    finally have "brighten_pixel p b = p + word_of_int b" .
    moreover have "adds_epu8 p (word_of_int b) = p + word_of_int b" unfolding adds_epu8_def nb using c by simp
    ultimately show ?thesis by simp
  qed
qed

lemma scalar_loop_None:
  "int (length img) < sz \<Longrightarrow> i < sz \<Longrightarrow> brightness_scalar_loop i img sz b = None"
proof (induction i img sz b rule: brightness_scalar_loop.induct)
  case (1 i img sz brightness)
  show ?case
  proof (cases "0 \<le> i \<and> i < int (length img)")
    case True
    then show ?thesis using 1 by (subst brightness_scalar_loop.simps) simp
  next
    case False
    then show ?thesis using 1 by (subst brightness_scalar_loop.simps) simp
  qed
qed

lemma scalar_loop_step:
  "0 \<le> i \<Longrightarrow> i < sz \<Longrightarrow> i < int (length img) \<Longrightarrow>
   brightness_scalar_loop i img sz b =
   brightness_scalar_loop (i + 1) (img[nat i := brighten_pixel (img ! nat i) b]) sz b"
  by (subst brightness_scalar_loop.simps) simp

lemma scalar_loop_exit:
  "sz \<le> i \<Longrightarrow> brightness_scalar_loop i img sz b = Some img"
  by (subst brightness_scalar_loop.simps) simp

lemma update_as_block:
  assumes "n < length xs"
  shows "take (Suc n) (xs[n := f (xs ! n)]) @ map f (take k (drop (Suc n) (xs[n := f (xs ! n)])))
           @ drop (Suc n + k) (xs[n := f (xs ! n)])
         = take n xs @ map f (take (Suc k) (drop n xs)) @ drop (n + Suc k) xs"
proof -
  let ?ys = "xs[n := f (xs ! n)]"
  have t: "take (Suc n) ?ys = take n xs @ [f (xs ! n)]"
    using assms by (simp add: take_Suc_conv_app_nth)
  have d: "drop (Suc n) ?ys = drop (Suc n) xs" by simp
  have d2: "drop (Suc n + k) ?ys = drop (n + Suc k) xs" by simp
  have c: "drop n xs = xs ! n # drop (Suc n) xs"
    using assms by (simp add: Cons_nth_drop_Suc)
  show ?thesis unfolding t d d2 c by simp
qed

lemma scalar_loop_block:
  "0 \<le> i \<Longrightarrow> i + int k \<le> sz \<Longrightarrow> i + int k \<le> int (length img) \<Longrightarrow>
   brightness_scalar_loop i img sz b =
   brightness_scalar_loop (i + int k)
     (take (nat i) img @ map (\<lambda>p. brighten_pixel p b) (take k (drop (nat i) img))
        @ drop (nat i + k) img) sz b"
proof (induction k arbitrary: i img)
  case 0
  then show ?case by simp
next
  case (Suc k)
  let ?f = "\<lambda>p. brighten_pixel p b"
  let ?img1 = "img[nat i := ?f (img ! nat i)]"
  have n: "nat i < length img" using Suc.prems by linarith
  have s: "nat (i + 1) = Suc (nat i)" using Suc.prems by simp
  have "brightness_scalar_loop i img sz b = brightness_scalar_loop (i + 1) ?img1 sz b"
    using Suc.prems by (intro scalar_loop_step) auto
  also have "\<dots> = brightness_scalar_loop (i + 1 + int k)
      (take (nat (i + 1)) ?img1 @ map ?f (take k (drop (nat (i + 1)) ?img1))
        @ drop (nat (i + 1) + k) ?img1) sz b"
    using Suc.prems by (intro Suc.IH) auto
  also have "take (nat (i + 1)) ?img1 @ map ?f (take k (drop (nat (i + 1)) ?img1))
        @ drop (nat (i + 1) + k) ?img1
      = take (nat i) img @ map ?f (take (Suc k) (drop (nat i) img)) @ drop (nat i + Suc k) img"
    unfolding s using n by (rule update_as_block)
  also have "i + 1 + int k = i + int (Suc k)" by simp
  finally show ?case .
qed

lemma map2_replicate:
  "length xs = n \<Longrightarrow> map2 f xs (replicate n c) = map (\<lambda>x. f x c) xs"
  by (induction xs arbitrary: n) auto

lemma simd_block:
  assumes "n + 32 \<le> length img"
  shows "mm256_storeu_si256 img n
           (mm256_adds_epu8 (mm256_loadu_si256 img n) (mm256_set1_epi8 c))
         = take n img @ map (\<lambda>p. adds_epu8 p c) (take 32 (drop n img)) @ drop (n + 32) img"
proof -
  have "length (take 32 (drop n img)) = 32" using assms by simp
  then show ?thesis
    unfolding mm256_storeu_si256_def mm256_adds_epu8_def mm256_loadu_si256_def mm256_set1_epi8_def
    by (simp only: map2_replicate)
qed

lemma simd_then_scalar:
  assumes b: "0 \<le> b" "b \<le> 255"
  shows "0 \<le> i \<Longrightarrow>
    (case brightness_simd_loop i img sz (mm256_set1_epi8 (word_of_int b)) of
       None \<Rightarrow> None
     | Some (i', img') \<Rightarrow> brightness_scalar_loop i' img' sz b)
    = brightness_scalar_loop i img sz b"
proof (induction i img sz "mm256_set1_epi8 (word_of_int b :: 8 word)" rule: brightness_simd_loop.induct)
  case (1 i img sz)
  show ?case
  proof (cases "i \<le> sz - 32")
    case False
    then show ?thesis by (subst brightness_simd_loop.simps) simp
  next
    case True
    show ?thesis
    proof (cases "i + 32 \<le> int (length img)")
      case False
      have "brightness_scalar_loop i img sz b = None"
        using True False by (intro scalar_loop_None) auto
      moreover have "brightness_simd_loop i img sz (mm256_set1_epi8 (word_of_int b)) = None"
        using True False by (subst brightness_simd_loop.simps) simp
      ultimately show ?thesis by simp
    next
      case inb: True
      let ?img1 = "mm256_storeu_si256 img (nat i)
           (mm256_adds_epu8 (mm256_loadu_si256 img (nat i)) (mm256_set1_epi8 (word_of_int b)))"
      have n: "nat i + 32 \<le> length img" using inb "1.prems" by linarith
      have blk: "?img1 = take (nat i) img @ map (\<lambda>p. brighten_pixel p b) (take 32 (drop (nat i) img))
                   @ drop (nat i + 32) img"
        using simd_block [OF n] by (simp add: adds_epu8_brighten [OF b])
      have "brightness_simd_loop i img sz (mm256_set1_epi8 (word_of_int b))
            = brightness_simd_loop (i + 32) ?img1 sz (mm256_set1_epi8 (word_of_int b))"
        using True inb "1.prems" by (subst brightness_simd_loop.simps) (simp add: Let_def)
      moreover have "(case brightness_simd_loop (i + 32) ?img1 sz (mm256_set1_epi8 (word_of_int b)) of
           None \<Rightarrow> None | Some (i', img') \<Rightarrow> brightness_scalar_loop i' img' sz b)
          = brightness_scalar_loop (i + 32) ?img1 sz b"
        using True inb "1.prems" by (intro "1.hyps") auto
      moreover have "brightness_scalar_loop i img sz b = brightness_scalar_loop (i + 32) ?img1 sz b"
        unfolding blk using scalar_loop_block [of i 32 sz img b] True inb "1.prems" by simp
      ultimately show ?thesis by simp
    qed
  qed
qed

lemma scalar_closed_form:
  assumes "sz \<le> int (length img)"
  shows "adjust_brightness_scalar img sz b =
         Some (map (\<lambda>p. brighten_pixel p b) (take (nat sz) img) @ drop (nat sz) img)"
proof (cases "0 \<le> sz")
  case True
  have "brightness_scalar_loop 0 img sz b = brightness_scalar_loop (0 + int (nat sz))
     (take (nat 0) img @ map (\<lambda>p. brighten_pixel p b) (take (nat sz) (drop (nat 0) img))
        @ drop (nat 0 + nat sz) img) sz b"
    using assms True by (intro scalar_loop_block) auto
  then show ?thesis using True by (simp add: adjust_brightness_scalar_def scalar_loop_exit)
next
  case False
  then show ?thesis by (simp add: adjust_brightness_scalar_def scalar_loop_exit)
qed

text \<open>
  Claim C9. For every image, every \<^verbatim>\<open>size\<close> and every brightness in \<open>[0, 255]\<close>, the
  vector path (saturating unsigned byte addition on the full groups of 32 bytes, then the
  scalar remainder loop) returns byte for byte what the scalar path returns; when
  \<^verbatim>\<open>size\<close> does not exceed the buffer, both return the first \<^verbatim>\<open>size\<close> bytes brightened
  by the clamped integer addition and the rest of the buffer unchanged.
\<close>

theorem brightness_simd_refines_scalar:
  assumes "0 \<le> brightness" "brightness \<le> 255"
  shows "adjust_brightness_simd img sz brightness = adjust_brightness_scalar img sz brightness
       \<and> (sz \<le> int (length img) \<longrightarrow>
            adjust_brightness_simd img sz brightness =
              Some (map (\<lambda>p. brighten_pixel p brightness) (take (nat sz) img) @ drop (nat sz) img))"
proof -
  have "adjust_brightness_simd img sz brightness = adjust_brightness_scalar img sz brightness"
    unfolding adjust_brightness_simd_def adjust_brightness_scalar_def Let_def
    using simd_then_scalar [OF assms, where i = 0 and img = img and sz = sz] by simp
  then show ?thesis using scalar_closed_form by simp
qed


theorem brightness_simd_refines_scalar_witness:
  "(0::int) \<le> 50 \<and> (50::int) \<le> 255
   \<and> adjust_brightness_simd (replicate 32 10 @ [250, 7]) 33 50
       = adjust_brightness_scalar (replicate 32 10 @ [250, 7]) 33 50
   \<and> adjust_brightness_simd (replicate 32 10 @ [250, 7]) 33 50
       = Some (replicate 32 60 @ [255, 7])"
proof -
  have h: "(0::int) \<le> 50" "(50::int) \<le> 255" by simp_all
  have e: "map (\<lambda>p. brighten_pixel p 50) (take (nat 33) (replicate 32 10 @ [250, 7]))
             @ drop (nat 33) (replicate 32 10 @ [250, 7]) = replicate 32 60 @ [255, 7]"
    by (simp add: brighten_pixel_def)
  note t = brightness_simd_refines_scalar [OF h, of "replicate 32 10 @ [250, 7]" 33]
  have len: "(33::int) \<le> int (length (replicate 32 (10::8 word) @ [250, 7]))" by simp
  have a: "adjust_brightness_simd (replicate 32 10 @ [250, 7]) 33 50
             = Some (replicate 32 60 @ [255, 7])"
    using t [THEN conjunct2, rule_format, OF len] unfolding e .
  have b: "adjust_brightness_scalar (replicate 32 10 @ [250, 7]) 33 50
             = Some (replicate 32 60 @ [255, 7])"
    using t [THEN conjunct1] unfolding a by (rule sym)
  show ?thesis unfolding a b by simp
qed

lemma block_as_range:
  assumes "n + 32 \<le> length xs"
  shows "take (n + 32) (take n xs @ map g (take 32 (drop n xs)) @ drop (n + 32) xs)
           @ map g (take k (drop (n + 32) (take n xs @ map g (take 32 (drop n xs)) @ drop (n + 32) xs)))
           @ drop (n + 32 + k) (take n xs @ map g (take 32 (drop n xs)) @ drop (n + 32) xs)
         = take n xs @ map g (take (32 + k) (drop n xs)) @ drop (n + (32 + k)) xs"
proof -
  let ?ys = "take n xs @ map g (take 32 (drop n xs)) @ drop (n + 32) xs"
  have l1: "length (take n xs) = n" using assms by simp
  have l2: "length (map g (take 32 (drop n xs))) = 32" using assms by simp
  have t: "take (n + 32) ?ys = take n xs @ map g (take 32 (drop n xs))"
    using l1 l2 by simp
  have d: "drop (n + 32) ?ys = drop (n + 32) xs"
    using l1 l2 by simp
  have d2: "drop (n + 32 + k) ?ys = drop (n + (32 + k)) xs"
    using l1 l2 by (simp add: ac_simps)
  have "take (32 + k) (drop n xs) = take 32 (drop n xs) @ take k (drop 32 (drop n xs))"
    by (rule take_add)
  also have "drop 32 (drop n xs) = drop (n + 32) xs" by (simp add: add.commute)
  finally have s: "take (32 + k) (drop n xs) = take 32 (drop n xs) @ take k (drop (n + 32) xs)" .
  show ?thesis unfolding t d d2 s by simp
qed

lemma simd_loop_step:
  "0 \<le> i \<Longrightarrow> i + 32 \<le> sz \<Longrightarrow> i + 32 \<le> int (length img) \<Longrightarrow>
   brightness_simd_loop i img sz (mm256_set1_epi8 c) =
   brightness_simd_loop (i + 32)
     (take (nat i) img @ map (\<lambda>p. adds_epu8 p c) (take 32 (drop (nat i) img))
        @ drop (nat i + 32) img) sz (mm256_set1_epi8 c)"
proof -
  assume a: "0 \<le> i" "i + 32 \<le> sz" "i + 32 \<le> int (length img)"
  then have n: "nat i + 32 \<le> length img" by linarith
  show ?thesis
    using a by (subst brightness_simd_loop.simps) (simp add: Let_def simd_block [OF n])
qed

lemma simd_loop_blocks:
  "0 \<le> i \<Longrightarrow> i + 32 * int k \<le> sz \<Longrightarrow> i + 32 * int k \<le> int (length img) \<Longrightarrow>
   brightness_simd_loop i img sz (mm256_set1_epi8 c) =
   brightness_simd_loop (i + 32 * int k)
     (take (nat i) img @ map (\<lambda>p. adds_epu8 p c) (take (32 * k) (drop (nat i) img))
        @ drop (nat i + 32 * k) img) sz (mm256_set1_epi8 c)"
proof (induction k arbitrary: i img)
  case 0
  then show ?case by simp
next
  case (Suc k)
  let ?g = "\<lambda>p. adds_epu8 p c"
  let ?img1 = "take (nat i) img @ map ?g (take 32 (drop (nat i) img)) @ drop (nat i + 32) img"
  have i32: "i + 32 \<le> int (length img)" "i + 32 \<le> sz" using Suc.prems by simp_all
  have n: "nat i + 32 \<le> length img" using i32 Suc.prems(1) by linarith
  have len: "length ?img1 = length img" using n by simp
  have s: "nat (i + 32) = nat i + 32" using Suc.prems by simp
  have "brightness_simd_loop i img sz (mm256_set1_epi8 c)
        = brightness_simd_loop (i + 32) ?img1 sz (mm256_set1_epi8 c)"
    using Suc.prems(1) i32 by (intro simd_loop_step) auto
  also have "\<dots> = brightness_simd_loop (i + 32 + 32 * int k)
      (take (nat (i + 32)) ?img1 @ map ?g (take (32 * k) (drop (nat (i + 32)) ?img1))
        @ drop (nat (i + 32) + 32 * k) ?img1) sz (mm256_set1_epi8 c)"
    using Suc.prems len by (intro Suc.IH) auto
  also have "take (nat (i + 32)) ?img1 @ map ?g (take (32 * k) (drop (nat (i + 32)) ?img1))
        @ drop (nat (i + 32) + 32 * k) ?img1
      = take (nat i) img @ map ?g (take (32 + 32 * k) (drop (nat i) img))
        @ drop (nat i + (32 + 32 * k)) img"
    unfolding s using n by (rule block_as_range)
  also have "i + 32 + 32 * int k = i + 32 * int (Suc k)" by simp
  also have "32 + 32 * k = 32 * Suc k" by simp
  finally show ?case .
qed

text \<open>The shape of the vector path for every brightness: the bytes of the full groups of
  32 get the saturating unsigned addition of the low byte of \<^verbatim>\<open>brightness\<close>, the
  trailing \<open>size mod 32\<close> bytes get the scalar operation, the rest of the buffer is
  unchanged.\<close>

lemma brightness_simd_shape:
  assumes "0 \<le> sz" "sz \<le> int (length img)"
  shows "adjust_brightness_simd img sz brightness =
     (let full = nat sz - nat sz mod 32
      in Some (map (\<lambda>p. adds_epu8 p (word_of_int brightness)) (take full img)
               @ map (\<lambda>p. brighten_pixel p brightness) (take (nat sz - full) (drop full img))
               @ drop (nat sz) img))"
proof -
  let ?c = "word_of_int brightness :: 8 word"
  let ?g = "\<lambda>p. adds_epu8 p ?c"
  let ?f = "\<lambda>p. brighten_pixel p brightness"
  define k where "k = nat sz div 32"
  define full where "full = nat sz - nat sz mod 32"
  have fk: "full = 32 * k" unfolding full_def k_def by (simp add: minus_mod_eq_mult_div)
  have fle: "full \<le> nat sz" unfolding full_def by simp
  have flen: "full \<le> length img" using fle assms by linarith
  let ?img1 = "map ?g (take full img) @ drop full img"
  have len1: "length ?img1 = length img" using flen by simp
  have "brightness_simd_loop 0 img sz (mm256_set1_epi8 ?c) =
        brightness_simd_loop (0 + 32 * int k)
          (take (nat 0) img @ map ?g (take (32 * k) (drop (nat 0) img)) @ drop (nat 0 + 32 * k) img)
          sz (mm256_set1_epi8 ?c)"
    using fle flen assms unfolding fk by (intro simd_loop_blocks) auto
  then have a: "brightness_simd_loop 0 img sz (mm256_set1_epi8 ?c) =
        brightness_simd_loop (int full) ?img1 sz (mm256_set1_epi8 ?c)"
    unfolding fk by simp
  have "nat sz mod 32 < 32" by simp
  then have "nat sz < full + 32" unfolding full_def by (simp add: less_diff_conv2 [symmetric] )
  then have stop: "\<not> int full \<le> sz - 32" using assms by linarith
  have b: "brightness_simd_loop (int full) ?img1 sz (mm256_set1_epi8 ?c) = Some (int full, ?img1)"
    using stop by (subst brightness_simd_loop.simps) simp
  have "brightness_scalar_loop (int full) ?img1 sz brightness =
        brightness_scalar_loop (int full + int (nat sz - full))
          (take (nat (int full)) ?img1 @ map ?f (take (nat sz - full) (drop (nat (int full)) ?img1))
             @ drop (nat (int full) + (nat sz - full)) ?img1) sz brightness"
    using fle assms len1 by (intro scalar_loop_block) auto
  also have "int full + int (nat sz - full) = sz" using fle assms by simp
  also have "nat (int full) = full" by simp
  also have "full + (nat sz - full) = nat sz" using fle by simp
  also have "take full ?img1 = map ?g (take full img)" using flen by simp
  also have "drop full ?img1 = drop full img" using flen by simp
  also have "drop (nat sz) ?img1 = drop (nat sz) img" using flen fle by simp
  finally have c: "brightness_scalar_loop (int full) ?img1 sz brightness =
      Some (map ?g (take full img) @ map ?f (take (nat sz - full) (drop full img)) @ drop (nat sz) img)"
    by (simp add: scalar_loop_exit)
  show ?thesis
    unfolding adjust_brightness_simd_def Let_def a b full_def [symmetric] using c by simp
qed

text \<open>
  Claim C1. The batch pattern of \<^verbatim>\<open>adjust_brightness_simd\<close> is claimed to give the
  scalar operation applied to all \<open>N\<close> elements. With brightness \<open>-1\<close> and one full
  group of 32 bytes of value 10 the vector loop saturates every byte to 255 (the byte
  \<open>0xFF\<close> is added unsigned), where the scalar operation gives 9.
\<close>

theorem brightness_negative_diverges:
  "adjust_brightness_simd (replicate 32 10) 32 (- 1) = Some (replicate 32 255)
   \<and> adjust_brightness_scalar (replicate 32 10) 32 (- 1) = Some (replicate 32 9)"
  by code_simp

section \<open>Proofs: dot products\<close>

text \<open>Some values of the rounding: \<open>0.1f\<close> is \<open>0x3DCCCCCD\<close>, ties go to the even
  significand, and a binary32 value is left as it is.\<close>

lemma fl32_examples:
  "fl32 (1 / 10) = 13421773 / 134217728"
  "fl32 16777217 = 16777216"
  "fl32 16777219 = 16777220"
  "fl32 (1 / 3) = 11184811 / 33554432"
  "fl32 (- 5 / 2) = - 5 / 2"
  by code_simp+

lemma upt8: "[0..<8] = [0, 1, 2, 3, 4, 5, 6, 7]"
  by (simp add: upt_rec)

lemma loadu_lane:
  "off + 8 \<le> length mem \<Longrightarrow> j < 8 \<Longrightarrow> mm256_loadu_ps mem off ! j = mem ! (off + j)"
  by (simp add: mm256_loadu_ps_def)

lemma loadu_length:
  "off + 8 \<le> length mem \<Longrightarrow> length (mm256_loadu_ps mem off) = 8"
  by (simp add: mm256_loadu_ps_def)

lemma SoA8_length:
  assumes "Vec3Array_ok v1 n" "Vec3Array_ok v2 n" "off + 8 \<le> n"
  shows "length (simdDotProductSoA8 ops v1 v2 off) = 8"
  using assms
  by (simp add: simdDotProductSoA8_def Vec3Array_ok_def mm256_mul_ps_def mm256_fmadd_ps_def
      loadu_length Let_def)

lemma SoA8_lane:
  assumes "Vec3Array_ok v1 n" "Vec3Array_ok v2 n" "off + 8 \<le> n" "j < 8"
  shows "simdDotProductSoA8 ops v1 v2 off ! j = fma_dot ops v1 v2 (off + j)"
  using assms
  by (simp add: simdDotProductSoA8_def Vec3Array_ok_def mm256_mul_ps_def mm256_fmadd_ps_def
      loadu_length loadu_lane Let_def fma_dot_def)

lemma loop_Suc:
  "simdDotProductLarge_loop ops v1 v2 (Suc m) =
     mm256_add_ps ops (simdDotProductLarge_loop ops v1 v2 m) (simdDotProductSoA8 ops v1 v2 (m * 8))"
  by (simp add: simdDotProductLarge_loop_def Let_def)

lemma loop_lanes:
  assumes "Vec3Array_ok v1 n" "Vec3Array_ok v2 n"
  shows "m * 8 \<le> n \<Longrightarrow>
         length (simdDotProductLarge_loop ops v1 v2 m) = 8 \<and>
         (\<forall>j<8. simdDotProductLarge_loop ops v1 v2 m ! j =
                 foldl (fadd ops) (fzero ops) (map (\<lambda>i. fma_dot ops v1 v2 (i * 8 + j)) [0..<m]))"
proof (induction m)
  case 0
  show ?case by (simp add: simdDotProductLarge_loop_def mm256_setzero_ps_def)
next
  case (Suc m)
  then have IH: "length (simdDotProductLarge_loop ops v1 v2 m) = 8"
      "\<And>j. j < 8 \<Longrightarrow> simdDotProductLarge_loop ops v1 v2 m ! j =
           foldl (fadd ops) (fzero ops) (map (\<lambda>i. fma_dot ops v1 v2 (i * 8 + j)) [0..<m])"
    by simp_all
  have off: "m * 8 + 8 \<le> n" using Suc.prems by simp
  note len = SoA8_length [OF assms off, of ops]
  show ?case
  proof (intro conjI allI impI)
    show "length (simdDotProductLarge_loop ops v1 v2 (Suc m)) = 8"
      by (simp add: loop_Suc mm256_add_ps_def IH(1) len)
  next
    fix j :: nat assume j: "j < 8"
    have "simdDotProductLarge_loop ops v1 v2 (Suc m) ! j =
          fadd ops (simdDotProductLarge_loop ops v1 v2 m ! j) (simdDotProductSoA8 ops v1 v2 (m * 8) ! j)"
      using j by (simp add: loop_Suc mm256_add_ps_def IH(1) len)
    also have "\<dots> = fadd ops (foldl (fadd ops) (fzero ops)
                        (map (\<lambda>i. fma_dot ops v1 v2 (i * 8 + j)) [0..<m]))
                      (fma_dot ops v1 v2 (m * 8 + j))"
      by (simp only: IH(2) [OF j] SoA8_lane [OF assms off j])
    finally show "simdDotProductLarge_loop ops v1 v2 (Suc m) ! j =
        foldl (fadd ops) (fzero ops) (map (\<lambda>i. fma_dot ops v1 v2 (i * 8 + j)) [0..<Suc m])"
      by simp
  qed
qed

lemma sum_is_loop:
  "simdDotProductLarge_sum ops v1 v2 = simdDotProductLarge_loop ops v1 v2 (length (arr_x v1) div 8)"
  by (simp add: simdDotProductLarge_sum_def simdDotProductLarge_loop_def Let_def)

lemma foldl_nth_upt:
  "foldl (\<lambda>total i. f total (acc ! i)) z [0..<length acc] = foldl f z acc"
proof -
  have "foldl f z acc = foldl f z (map ((!) acc) [0..<length acc])"
    by (simp only: map_nth)
  also have "\<dots> = foldl (\<lambda>total i. f total (acc ! i)) z [0..<length acc]"
    by (simp only: foldl_map)
  finally show ?thesis by (rule sym)
qed

text \<open>
  Claim C6. During the reduction of \<^verbatim>\<open>simdDotProductLarge\<close> the accumulator is updated by
  lane-wise addition only: after the loop, lane \<open>j\<close> holds the running sum, in block
  order, of the lane-\<open>j\<close> products of all full blocks, whatever the arithmetic is. It is
  reduced to a scalar once, after the last iteration: the returned value is the sum of
  the lanes of that final accumulator, followed by the remainder elements.
\<close>

theorem accumulator_lanewise_reduced_once:
  assumes "Vec3Array_ok vectors1 n" "Vec3Array_ok vectors2 n"
  shows "length (simdDotProductLarge_sum ops vectors1 vectors2) = 8
       \<and> (\<forall>j<8. simdDotProductLarge_sum ops vectors1 vectors2 ! j =
                 foldl (fadd ops) (fzero ops)
                   (map (\<lambda>i. fma_dot ops vectors1 vectors2 (i * 8 + j)) [0..<n div 8]))
       \<and> simdDotProductLarge ops vectors1 vectors2 =
           foldl (fadd ops)
             (foldl (fadd ops) (fzero ops) (simdDotProductLarge_sum ops vectors1 vectors2))
             (map (\<lambda>i. Vec3_dot ops
                     (Vec3 (arr_x vectors1 ! i) (arr_y vectors1 ! i) (arr_z vectors1 ! i))
                     (Vec3 (arr_x vectors2 ! i) (arr_y vectors2 ! i) (arr_z vectors2 ! i)))
                [n div 8 * 8..<n])"
proof -
  have n: "length (arr_x vectors1) = n" using assms(1) by (simp add: Vec3Array_ok_def)
  have m: "n div 8 * 8 \<le> n" by simp
  note L = loop_lanes [OF assms m, of ops]
  have len: "length (simdDotProductLarge_sum ops vectors1 vectors2) = 8"
    using L by (simp add: sum_is_loop n)
  have lanes: "\<forall>j<8. simdDotProductLarge_sum ops vectors1 vectors2 ! j =
                 foldl (fadd ops) (fzero ops)
                   (map (\<lambda>i. fma_dot ops vectors1 vectors2 (i * 8 + j)) [0..<n div 8])"
    using L by (simp add: sum_is_loop n)
  have hs: "foldl (\<lambda>total i. fadd ops total (simdDotProductLarge_sum ops vectors1 vectors2 ! i))
              (fzero ops) [0..<8]
            = foldl (fadd ops) (fzero ops) (simdDotProductLarge_sum ops vectors1 vectors2)"
    using foldl_nth_upt [of "fadd ops" "simdDotProductLarge_sum ops vectors1 vectors2" "fzero ops"]
      len by simp
  have "simdDotProductLarge ops vectors1 vectors2 =
           foldl (fadd ops)
             (foldl (fadd ops) (fzero ops) (simdDotProductLarge_sum ops vectors1 vectors2))
             (map (\<lambda>i. Vec3_dot ops
                     (Vec3 (arr_x vectors1 ! i) (arr_y vectors1 ! i) (arr_z vectors1 ! i))
                     (Vec3 (arr_x vectors2 ! i) (arr_y vectors2 ! i) (arr_z vectors2 ! i)))
                [n div 8 * 8..<n])"
    unfolding simdDotProductLarge_def Let_def hs n by (simp add: foldl_map)
  then show ?thesis using len lanes by simp
qed

theorem accumulator_lanewise_reduced_once_witness:
  "Vec3Array_ok (Vec3Array [1, 2, 3, 4, 5, 6, 7, 8, 9] (replicate 9 1) (replicate 9 (0::rat))) 9
   \<and> Vec3Array_ok (Vec3Array (replicate 9 2) [0, 1, 2, 3, 4, 5, 6, 7, 8] (replicate 9 (5::rat))) 9
   \<and> (3::nat) < 8
   \<and> simdDotProductLarge_sum binary32_ops
        (Vec3Array [1, 2, 3, 4, 5, 6, 7, 8, 9] (replicate 9 1) (replicate 9 0))
        (Vec3Array (replicate 9 2) [0, 1, 2, 3, 4, 5, 6, 7, 8] (replicate 9 5)) ! 3 = 11
   \<and> simdDotProductLarge binary32_ops
        (Vec3Array [1, 2, 3, 4, 5, 6, 7, 8, 9] (replicate 9 1) (replicate 9 0))
        (Vec3Array (replicate 9 2) [0, 1, 2, 3, 4, 5, 6, 7, 8] (replicate 9 5)) = 126"
proof -
  let ?A = "Vec3Array [1, 2, 3, 4, 5, 6, 7, 8, 9] (replicate 9 1) (replicate 9 (0::rat))"
  let ?B = "Vec3Array (replicate 9 2) [0, 1, 2, 3, 4, 5, 6, 7, 8] (replicate 9 (5::rat))"
  have okA: "Vec3Array_ok ?A 9" by (simp add: Vec3Array_ok_def)
  have okB: "Vec3Array_ok ?B 9" by (simp add: Vec3Array_ok_def)
  have j: "(3::nat) < 8" by simp
  note t = accumulator_lanewise_reduced_once [OF okA okB, of binary32_ops]
  have r: "foldl (fadd binary32_ops) (fzero binary32_ops)
             (map (\<lambda>i. fma_dot binary32_ops ?A ?B (i * 8 + 3)) [0..<9 div 8]) = 11"
    by code_simp
  have lane: "simdDotProductLarge_sum binary32_ops ?A ?B ! 3 = 11"
    using t [THEN conjunct2, THEN conjunct1, rule_format, OF j] unfolding r .
  have total: "simdDotProductLarge binary32_ops ?A ?B = 126"
    by code_simp
  show ?thesis using okA okB j lane total by blast
qed

text \<open>
  Claim C2, as the code has it. The eight lanes of the final accumulator are collapsed
  by sequential summation from \<open>0.0\<close>, lane 0 first and lane 7 last, and the remainder
  elements are added to that total afterwards, in index order.
\<close>

theorem collapse_is_sequential_then_remainder:
  "simdDotProductLarge ops vectors1 vectors2 =
     (let acc = simdDotProductLarge_sum ops vectors1 vectors2;
          sz = length (arr_x vectors1)
      in foldl (\<lambda>total i. fadd ops total
                  (Vec3_dot ops (Vec3 (arr_x vectors1 ! i) (arr_y vectors1 ! i) (arr_z vectors1 ! i))
                                (Vec3 (arr_x vectors2 ! i) (arr_y vectors2 ! i) (arr_z vectors2 ! i))))
           (fadd ops (fadd ops (fadd ops (fadd ops (fadd ops (fadd ops (fadd ops (fadd ops
              (fzero ops) (acc ! 0)) (acc ! 1)) (acc ! 2)) (acc ! 3)) (acc ! 4)) (acc ! 5))
              (acc ! 6)) (acc ! 7))
           [sz div 8 * 8..<sz])"
  unfolding simdDotProductLarge_def Let_def upt8 by simp

lemma large_sequential_value:
  "simdDotProductLarge binary32_ops
      (Vec3Array [16777216, 0, 1, 1, 0, 0, 0, 0] (replicate 8 0) (replicate 8 0))
      (Vec3Array (replicate 8 1) (replicate 8 0) (replicate 8 0)) = 16777216"
  by code_simp

lemma large_pairwise_value:
  "spec_reduce_pairwise binary32_ops
      (Vec3Array [16777216, 0, 1, 1, 0, 0, 0, 0] (replicate 8 0) (replicate 8 0))
      (Vec3Array (replicate 8 1) (replicate 8 0) (replicate 8 0)) = 16777218"
  by code_simp

text \<open>
  Claim C2, as stated, fails. Eight vectors whose products are \<open>2^24, 0, 1, 1, 0, 0, 0, 0\<close>
  fill one block. In binary32 the code's sequential collapse returns \<open>2^24\<close> (each added
  1 is lost to rounding), where pairwise summation returns \<open>2^24 + 2\<close>.
\<close>

theorem collapse_not_pairwise:
  "simdDotProductLarge binary32_ops
      (Vec3Array [16777216, 0, 1, 1, 0, 0, 0, 0] (replicate 8 0) (replicate 8 0))
      (Vec3Array (replicate 8 1) (replicate 8 0) (replicate 8 0))
   \<noteq> spec_reduce_pairwise binary32_ops
      (Vec3Array [16777216, 0, 1, 1, 0, 0, 0, 0] (replicate 8 0) (replicate 8 0))
      (Vec3Array (replicate 8 1) (replicate 8 0) (replicate 8 0))"
  unfolding large_sequential_value large_pairwise_value by simp

text \<open>
  Claim C5. For \<open>v1 = (0.5, -0.3, 0.8)\<close> and \<open>v2 = (0.2, 0.7, -0.4)\<close> the scalar
  \<^verbatim>\<open>Vec3::dot\<close> and the vector path with two horizontal additions both give \<open>-0.43\<close>:
  exactly in exact arithmetic, and within \<open>10^-7\<close> in binary32, where the six literals are
  rounded to binary32 first and every operation rounds; the two binary32 results are
  the same number.
\<close>

theorem dot_product_scenario:
  "Vec3_dot exact_ops (Vec3 (1 / 2) (- 3 / 10) (4 / 5)) (Vec3 (1 / 5) (7 / 10) (- 2 / 5)) = - 43 / 100
   \<and> simdDotProductSingle exact_ops (Vec3 (1 / 2) (- 3 / 10) (4 / 5))
        (Vec3 (1 / 5) (7 / 10) (- 2 / 5)) = - 43 / 100
   \<and> \<bar>Vec3_dot binary32_ops (Vec3 (fl32 (1 / 2)) (fl32 (- 3 / 10)) (fl32 (4 / 5)))
        (Vec3 (fl32 (1 / 5)) (fl32 (7 / 10)) (fl32 (- 2 / 5))) - (- 43 / 100)\<bar> \<le> 1 / 10 ^ 7
   \<and> \<bar>simdDotProductSingle binary32_ops (Vec3 (fl32 (1 / 2)) (fl32 (- 3 / 10)) (fl32 (4 / 5)))
        (Vec3 (fl32 (1 / 5)) (fl32 (7 / 10)) (fl32 (- 2 / 5))) - (- 43 / 100)\<bar> \<le> 1 / 10 ^ 7
   \<and> simdDotProductSingle binary32_ops (Vec3 (fl32 (1 / 2)) (fl32 (- 3 / 10)) (fl32 (4 / 5)))
        (Vec3 (fl32 (1 / 5)) (fl32 (7 / 10)) (fl32 (- 2 / 5)))
      = Vec3_dot binary32_ops (Vec3 (fl32 (1 / 2)) (fl32 (- 3 / 10)) (fl32 (4 / 5)))
        (Vec3 (fl32 (1 / 5)) (fl32 (7 / 10)) (fl32 (- 2 / 5)))"
  by code_simp

section \<open>Proofs: conditional code and masks\<close>

lemma clamp_lane: "std_max 5 (std_min 30 x) = (if x < 5 then 5 else if 30 < x then 30 else x)"
  by (simp add: std_max_def std_min_def)

text \<open>
  Claim C3, as the code has it. Clamping \<open>[5, 10, 15, 20, 25, 30, 35, 40]\<close> to \<open>[5, 30]\<close>
  gives \<open>[5, 10, 15, 20, 25, 30, 30, 30]\<close> on the scalar path and on the vector path,
  whatever the output buffers held before.
\<close>

theorem clamp_scenario:
  assumes "length result_scalar = 8" "length result_simd = 8"
  shows "scalar_clamp [5, 10, 15, 20, 25, 30, 35, 40] result_scalar = [5, 10, 15, 20, 25, 30, 30, 30]
       \<and> simd_clamp [5, 10, 15, 20, 25, 30, 35, 40] result_simd = [5, 10, 15, 20, 25, 30, 30, 30]"
proof -
  obtain r0 r1 r2 r3 r4 r5 r6 r7 where r: "result_scalar = [r0, r1, r2, r3, r4, r5, r6, r7]"
    using assms(1) by (auto simp: length_Suc_conv eval_nat_numeral)
  have a: "scalar_clamp [5, 10, 15, 20, 25, 30, 35, 40] result_scalar = [5, 10, 15, 20, 25, 30, 30, 30]"
    unfolding scalar_clamp_def upt8 r by (simp add: clamp_lane)
  have b: "simd_clamp [5, 10, 15, 20, 25, 30, 35, 40] result_simd = [5, 10, 15, 20, 25, 30, 30, 30]"
    using assms(2)
    by (simp add: simd_clamp_def mm256_set1_ps_def mm256_min_ps_def mm256_max_ps_def
        mm256_store_ps_def eval_nat_numeral)
  show ?thesis using a b by simp
qed

theorem clamp_scenario_witness:
  "length (replicate 8 (0::rat)) = 8
   \<and> scalar_clamp [5, 10, 15, 20, 25, 30, 35, 40] (replicate 8 0) = [5, 10, 15, 20, 25, 30, 30, 30]
   \<and> simd_clamp [5, 10, 15, 20, 25, 30, 35, 40] (replicate 8 0) = [5, 10, 15, 20, 25, 30, 30, 30]"
proof -
  have l: "length (replicate 8 (0::rat)) = 8" by simp
  show ?thesis using clamp_scenario [OF l l] l by blast
qed

text \<open>
  Claim C3, as stated, fails: neither path returns \<open>[5, 10, 15, 20, 25, 30, 35, 30]\<close>,
  whose seventh element 35 lies above the upper bound 30.
\<close>

theorem clamp_scenario_as_stated_fails:
  "scalar_clamp [5, 10, 15, 20, 25, 30, 35, 40] (replicate 8 0) \<noteq> [5, 10, 15, 20, 25, 30, 35, 30]
   \<and> simd_clamp [5, 10, 15, 20, 25, 30, 35, 40] (replicate 8 0) \<noteq> [5, 10, 15, 20, 25, 30, 35, 30]"
  by code_simp

lemma mask_set_simps:
  "mask_set (- 1) = True" "mask_set 0 = False" "mask_set (and x y) = (mask_set x \<and> mask_set y)"
  by (simp_all add: mask_set_def bit_and_iff)

lemma cond_update_fold_length:
  "length (foldl (\<lambda>mem i. if P i then mem[i := a ! i] else mem) mem is) = length mem"
  by (induction "is" arbitrary: mem) simp_all

lemma cond_update_fold_nth:
  "foldl (\<lambda>mem i. if P i then mem[i := a ! i] else mem) mem is ! j =
     (if j \<in> set is \<and> P j \<and> j < length mem then a ! j else mem ! j)"
proof (induction "is" arbitrary: mem)
  case Nil
  show ?case by simp
next
  case (Cons i "is")
  show ?case
  proof (cases "i = j")
    case True
    then show ?thesis by (cases "j < length mem") (simp_all add: Cons.IH list_update_beyond)
  next
    case False
    then show ?thesis by (auto simp: Cons.IH)
  qed
qed

lemma maskstore_nth:
  "mm256_maskstore_ps mem msk a ! j =
     (if j < 8 \<and> mask_set (msk ! j) \<and> j < length mem then a ! j else mem ! j)"
  unfolding mm256_maskstore_ps_def by (simp add: cond_update_fold_nth)

lemma blendv_nth:
  "i < 8 \<Longrightarrow> mm256_blendv_ps a b msk ! i = (if mask_set (msk ! i) then b ! i else a ! i)"
  unfolding mm256_blendv_ps_def by simp

text \<open>The kernel \<^verbatim>\<open>simd_complex\<close> passes zero as the first operand of the blend, so its
  masked-out lanes are zero, as in the scalar \<open>else\<close> branch; section 4 of the loading
  example stores under a mask into a buffer it has just zeroed.\<close>

lemma simd_complex_lanes:
  assumes "length vector1 = 8" "length vector2 = 8" "length result_simd = 8"
  shows "simd_complex vector1 vector2 result_simd =
         map (\<lambda>i. if 0 < vector2 ! i \<and> vector1 ! i < vector2 ! i then vector2 ! i else 0) [0..<8]"
proof -
  have len: "length (mm256_blendv_ps a b m) = 8" for a b :: "rat list" and m
    by (simp add: mm256_blendv_ps_def)
  have st: "mm256_store_ps result_simd r = r" if "length r = 8" for r :: "rat list"
    using that assms(3) by (simp add: mm256_store_ps_def)
  have lane: "mask_set (mm256_and_ps_mask (mm256_cmp_ps_GT_OQ vector2 (replicate 8 0))
                 (mm256_cmp_ps_GT_OQ vector2 vector1) ! i)
              = (0 < vector2 ! i \<and> vector1 ! i < vector2 ! i)" if "i < 8" for i
    using that assms
    by (simp add: mm256_and_ps_mask_def mm256_cmp_ps_GT_OQ_def mask_set_simps)
  show ?thesis
    unfolding simd_complex_def Let_def st [OF len]
    unfolding mm256_blendv_ps_def mm256_setzero_ps_def
    using lane by (simp add: exact_ops_def)
qed

lemma masked_store_section_lanes:
  assumes "length aligned_data = 8"
  shows "masked_store_section aligned_data test_vec =
         [0, test_vec ! 1, 0, test_vec ! 3, 0, test_vec ! 5, 0, test_vec ! 7]"
proof -
  obtain r0 r1 r2 r3 r4 r5 r6 r7 where r: "aligned_data = [r0, r1, r2, r3, r4, r5, r6, r7]"
    using assms by (auto simp: length_Suc_conv eval_nat_numeral)
  show ?thesis
    unfolding masked_store_section_def mm256_maskstore_ps_def mm256_set_epi32_def Let_def upt8 r
    by (simp add: mask_set_simps)
qed

text \<open>
  Claim C4. A masked store leaves every element whose mask lane is not set (and every
  element beyond the eight lanes) as it was before the store, and writes the new value
  into the selected lanes; a blend returns in every lane whose mask lane is not set the
  lane of its first operand unchanged, and the lane of the second operand elsewhere. The
  values are of an arbitrary type, so they are copied, not recomputed. A masked-out lane
  is zero only where zero is what the buffer held or what the kernel passes as first
  operand.
\<close>

theorem masked_out_lanes_keep_prior_value:
  "length (mm256_maskstore_ps mem msk a) = length mem
   \<and> (\<forall>i. \<not> (i < 8 \<and> mask_set (msk ! i)) \<longrightarrow> mm256_maskstore_ps mem msk a ! i = mem ! i)
   \<and> (\<forall>i<8. mask_set (msk ! i) \<longrightarrow> i < length mem \<longrightarrow> mm256_maskstore_ps mem msk a ! i = a ! i)
   \<and> length (mm256_blendv_ps old new msk) = 8
   \<and> (\<forall>i<8. \<not> mask_set (msk ! i) \<longrightarrow> mm256_blendv_ps old new msk ! i = old ! i)
   \<and> (\<forall>i<8. mask_set (msk ! i) \<longrightarrow> mm256_blendv_ps old new msk ! i = new ! i)
   \<and> (length aligned_data = 8 \<longrightarrow>
        masked_store_section aligned_data test_vec =
          [0, test_vec ! 1, 0, test_vec ! 3, 0, test_vec ! 5, 0, test_vec ! 7])
   \<and> (length vector1 = 8 \<and> length vector2 = 8 \<and> length result_simd = 8 \<longrightarrow>
        simd_complex vector1 vector2 result_simd =
          map (\<lambda>i. if 0 < vector2 ! i \<and> vector1 ! i < vector2 ! i then vector2 ! i else 0) [0..<8])"
proof -
  have 1: "length (mm256_maskstore_ps mem msk a) = length mem"
    unfolding mm256_maskstore_ps_def by (rule cond_update_fold_length)
  have 2: "\<forall>i. \<not> (i < 8 \<and> mask_set (msk ! i)) \<longrightarrow> mm256_maskstore_ps mem msk a ! i = mem ! i"
    by (auto simp: maskstore_nth)
  have 3: "\<forall>i<8. mask_set (msk ! i) \<longrightarrow> i < length mem \<longrightarrow> mm256_maskstore_ps mem msk a ! i = a ! i"
    by (simp add: maskstore_nth)
  have 4: "length (mm256_blendv_ps old new msk) = 8"
    by (simp add: mm256_blendv_ps_def)
  have 5: "\<forall>i<8. \<not> mask_set (msk ! i) \<longrightarrow> mm256_blendv_ps old new msk ! i = old ! i"
    by (simp add: blendv_nth)
  have 6: "\<forall>i<8. mask_set (msk ! i) \<longrightarrow> mm256_blendv_ps old new msk ! i = new ! i"
    by (simp add: blendv_nth)
  have 7: "length aligned_data = 8 \<longrightarrow>
        masked_store_section aligned_data test_vec =
          [0, test_vec ! 1, 0, test_vec ! 3, 0, test_vec ! 5, 0, test_vec ! 7]"
    by (simp add: masked_store_section_lanes)
  have 8: "length vector1 = 8 \<and> length vector2 = 8 \<and> length result_simd = 8 \<longrightarrow>
        simd_complex vector1 vector2 result_simd =
          map (\<lambda>i. if 0 < vector2 ! i \<and> vector1 ! i < vector2 ! i then vector2 ! i else 0) [0..<8]"
    using simd_complex_lanes by blast
  from 1 2 3 4 5 6 7 8 show ?thesis by blast
qed

theorem masked_out_lanes_keep_prior_value_witness:
  "(0::nat) < 8 \<and> (1::nat) < 8
   \<and> \<not> mask_set (mm256_set_epi32 (- 1) 0 (- 1) 0 (- 1) 0 (- 1) 0 ! 0)
   \<and> mask_set (mm256_set_epi32 (- 1) 0 (- 1) 0 (- 1) 0 (- 1) 0 ! 1)
   \<and> mm256_maskstore_ps [9, 9, 9, 9, 9, 9, 9, 9 :: rat] (mm256_set_epi32 (- 1) 0 (- 1) 0 (- 1) 0 (- 1) 0)
        (mm256_set_ps 16 14 12 10 8 6 4 2) ! 0 = 9
   \<and> mm256_maskstore_ps [9, 9, 9, 9, 9, 9, 9, 9 :: rat] (mm256_set_epi32 (- 1) 0 (- 1) 0 (- 1) 0 (- 1) 0)
        (mm256_set_ps 16 14 12 10 8 6 4 2) ! 1 = 4
   \<and> mm256_blendv_ps [9, 9, 9, 9, 9, 9, 9, 9 :: rat] (mm256_set_ps 16 14 12 10 8 6 4 2)
        (mm256_set_epi32 (- 1) 0 (- 1) 0 (- 1) 0 (- 1) 0) ! 0 = 9
   \<and> mm256_blendv_ps [9, 9, 9, 9, 9, 9, 9, 9 :: rat] (mm256_set_ps 16 14 12 10 8 6 4 2)
        (mm256_set_epi32 (- 1) 0 (- 1) 0 (- 1) 0 (- 1) 0) ! 1 = 4
   \<and> masked_store_section [1, 2, 3, 4, 5, 6, 7, 8 :: rat] (mm256_set_ps 16 14 12 10 8 6 4 2)
       = [0, 4, 0, 8, 0, 12, 0, 16]
   \<and> simd_complex [5, 10, 15, 20, 25, 30, 35, 40] [- 1, 4, 9, - 16, 25, - 36, 49, - 64]
        (replicate 8 0) = [0, 0, 0, 0, 0, 0, 49, 0]"
proof -
  let ?mem = "[9, 9, 9, 9, 9, 9, 9, 9 :: rat]"
  let ?msk = "mm256_set_epi32 (- 1) 0 (- 1) 0 (- 1) 0 (- 1) 0"
  let ?a = "mm256_set_ps 16 14 12 10 8 6 4 (2::rat)"
  note t = masked_out_lanes_keep_prior_value
    [of ?mem ?msk ?a ?mem ?a "[1, 2, 3, 4, 5, 6, 7, 8 :: rat]" ?a
        "[5, 10, 15, 20, 25, 30, 35, 40]" "[- 1, 4, 9, - 16, 25, - 36, 49, - 64]" "replicate 8 0"]
  have i0: "(0::nat) < 8" and i1: "(1::nat) < 8" by simp_all
  have m0: "\<not> mask_set (?msk ! 0)" by (simp add: mm256_set_epi32_def mask_set_simps)
  have m1: "mask_set (?msk ! 1)" by (simp add: mm256_set_epi32_def mask_set_simps)
  have n0: "\<not> (0 < (8::nat) \<and> mask_set (?msk ! 0))" using m0 by simp
  have l1: "1 < length ?mem" by simp
  have s0: "mm256_maskstore_ps ?mem ?msk ?a ! 0 = 9"
    using t [THEN conjunct2, THEN conjunct1, rule_format, OF n0] by simp
  have s1: "mm256_maskstore_ps ?mem ?msk ?a ! 1 = 4"
    using t [THEN conjunct2, THEN conjunct2, THEN conjunct1, rule_format, OF i1 m1 l1]
    by (simp add: mm256_set_ps_def)
  have b0: "mm256_blendv_ps ?mem ?a ?msk ! 0 = 9"
    using t [THEN conjunct2, THEN conjunct2, THEN conjunct2, THEN conjunct2, THEN conjunct1,
        rule_format, OF i0 m0] by simp
  have b1: "mm256_blendv_ps ?mem ?a ?msk ! 1 = 4"
    using t [THEN conjunct2, THEN conjunct2, THEN conjunct2, THEN conjunct2, THEN conjunct2,
        THEN conjunct1, rule_format, OF i1 m1] by (simp add: mm256_set_ps_def)
  have run: "masked_store_section [1, 2, 3, 4, 5, 6, 7, 8 :: rat] ?a = [0, 4, 0, 8, 0, 12, 0, 16]"
    by code_simp
  have cplx: "simd_complex [5, 10, 15, 20, 25, 30, 35, 40] [- 1, 4, 9, - 16, 25, - 36, 49, - 64]
        (replicate 8 0) = [0, 0, 0, 0, 0, 0, 49, 0]"
    by code_simp
  show ?thesis using i0 i1 m0 m1 s0 s1 b0 b1 run cplx by blast
qed

lemma update_fold_length:
  "length (foldl (\<lambda>r i. r[i := g i]) r is) = length r"
  by (induction "is" arbitrary: r) simp_all

lemma update_fold_nth:
  "j < length r \<Longrightarrow>
   foldl (\<lambda>r i. r[i := g i]) r is ! j = (if j \<in> set is then g j else r ! j)"
proof (induction "is" arbitrary: r)
  case Nil
  show ?case by simp
next
  case (Cons i "is")
  then show ?case by (cases "i = j") simp_all
qed

lemma scalar_complex_lanes:
  assumes "length result_scalar = 8"
  shows "scalar_complex data1 data2 result_scalar =
         map (\<lambda>i. if 0 < data2 ! i \<and> data1 ! i < data2 ! i then data2 ! i else 0) [0..<8]"
proof -
  let ?g = "\<lambda>i. if 0 < data2 ! i \<and> data1 ! i < data2 ! i then data2 ! i else (0::rat)"
  have body: "(\<lambda>result_scalar i.
              if 0 < data2 ! i \<and> data1 ! i < data2 ! i
              then result_scalar[i := data2 ! i]
              else result_scalar[i := 0]) = (\<lambda>r i. r[i := ?g i])"
    by (intro ext) simp
  have s: "scalar_complex data1 data2 result_scalar = foldl (\<lambda>r i. r[i := ?g i]) result_scalar [0..<8]"
    unfolding scalar_complex_def body ..
  show ?thesis
  proof (rule nth_equalityI)
    show "length (scalar_complex data1 data2 result_scalar) = length (map ?g [0..<8])"
      unfolding s using assms by (simp add: update_fold_length)
  next
    fix j assume "j < length (scalar_complex data1 data2 result_scalar)"
    then have j: "j < 8" unfolding s using assms by (simp add: update_fold_length)
    then have "foldl (\<lambda>r i. r[i := ?g i]) result_scalar [0..<8] ! j = ?g j"
      using assms by (subst update_fold_nth) simp_all
    then show "scalar_complex data1 data2 result_scalar ! j = map ?g [0..<8] ! j"
      unfolding s using j by simp
  qed
qed

lemma simd_complex_matches_scalar:
  assumes "length data1 = 8" "length data2 = 8" "length result_scalar = 8" "length result_simd = 8"
  shows "simd_complex data1 data2 result_simd = scalar_complex data1 data2 result_scalar"
  using assms by (simp only: simd_complex_lanes scalar_complex_lanes)

text \<open>
  Claim C10. For every source array and every mask, the masked load returns the source
  element in each lane whose mask lane is set and zero in every other lane; with the
  mask of \<^verbatim>\<open>main\<close> these are the elements 0, 2, 4 and 6 and zero in lanes 1, 3, 5 and 7.
\<close>

theorem masked_load_zeroes_unselected:
  "length (mm256_maskload_ps mem msk) = 8
   \<and> (\<forall>i<8. mm256_maskload_ps mem msk ! i = (if mask_set (msk ! i) then mem ! i else 0))
   \<and> masked_load_section mem = [mem ! 0, 0, mem ! 2, 0, mem ! 4, 0, mem ! 6, 0]"
proof -
  have 1: "length (mm256_maskload_ps mem msk) = 8" by (simp add: mm256_maskload_ps_def)
  have 2: "\<forall>i<8. mm256_maskload_ps mem msk ! i = (if mask_set (msk ! i) then mem ! i else 0)"
    by (simp add: mm256_maskload_ps_def)
  have 3: "masked_load_section mem = [mem ! 0, 0, mem ! 2, 0, mem ! 4, 0, mem ! 6, 0]"
    unfolding masked_load_section_def mm256_maskload_ps_def mm256_set_epi32_def Let_def upt8
    by (simp add: mask_set_simps)
  from 1 2 3 show ?thesis by blast
qed

theorem masked_load_zeroes_unselected_witness:
  "(1::nat) < 8
   \<and> \<not> mask_set (mm256_set_epi32 0 (- 1) 0 (- 1) 0 (- 1) 0 (- 1) ! 1)
   \<and> mm256_maskload_ps
        [0x3F800000, 0x40000000, 0x40400000, 0x40800000,
         0x40A00000, 0x40C00000, 0x40E00000, 0x41000000 :: 32 word]
        (mm256_set_epi32 0 (- 1) 0 (- 1) 0 (- 1) 0 (- 1)) ! 1 = 0
   \<and> masked_load_section
        [0x3F800000, 0x40000000, 0x40400000, 0x40800000,
         0x40A00000, 0x40C00000, 0x40E00000, 0x41000000 :: 32 word]
      = [0x3F800000, 0, 0x40400000, 0, 0x40A00000, 0, 0x40E00000, 0]"
proof -
  let ?mem = "[0x3F800000, 0x40000000, 0x40400000, 0x40800000,
               0x40A00000, 0x40C00000, 0x40E00000, 0x41000000 :: 32 word]"
  let ?msk = "mm256_set_epi32 0 (- 1) 0 (- 1) 0 (- 1) 0 (- 1)"
  note t = masked_load_zeroes_unselected [of ?mem ?msk]
  have i: "(1::nat) < 8" by simp
  have m: "\<not> mask_set (?msk ! 1)" by (simp add: mm256_set_epi32_def mask_set_simps)
  have a: "mm256_maskload_ps ?mem ?msk ! 1 = 0"
    using t [THEN conjunct2, THEN conjunct1, rule_format, OF i] m by simp
  have b: "masked_load_section ?mem = [0x3F800000, 0, 0x40400000, 0, 0x40A00000, 0, 0x40E00000, 0]"
    using t [THEN conjunct2, THEN conjunct2] by simp
  show ?thesis using i m a b by blast
qed

section \<open>Proofs: aligned allocation\<close>

lemma arena_memalign_contract: "posix_memalign_contract arena_memalign"
  unfolding posix_memalign_contract_def
proof (intro allI impI)
  fix alignment n :: size_t
  assume ok: "fst (arena_memalign alignment n) = 0"
  let ?A = "unat alignment"
  let ?p = "((65544 + ?A - 1) div ?A) * ?A"
  have v: "valid_alignment alignment"
    using ok by (auto simp: arena_memalign_def split: if_splits)
  have fit: "\<not> 1114112 < ?p + unat n"
    using ok v by (auto simp: arena_memalign_def Let_def split: if_splits)
  have s: "snd (arena_memalign alignment n) = of_nat ?p"
    using v fit by (simp add: arena_memalign_def Let_def)
  have "?p \<le> 1114112" using fit by linarith
  then have "?p < 2 ^ LENGTH(64)" by simp
  then have "unat (of_nat ?p :: size_t) = ?p"
    by (intro of_nat_inverse) simp_all
  then have "unat (snd (arena_memalign alignment n)) mod ?A = 0"
    unfolding s by simp
  then show "valid_alignment alignment \<and> unat (snd (arena_memalign alignment n)) mod ?A = 0"
    using v by simp
qed

text \<open>
  Claim C7. With a \<^verbatim>\<open>posix_memalign\<close> that keeps the POSIX contract, \<^verbatim>\<open>aligned_alloc\<close>
  has two outcomes and no third: it throws \<^verbatim>\<open>bad_alloc\<close>, exactly when the allocator
  reports an error, or it returns an address that is a multiple of the requested
  alignment. An alignment that is not a power of two always ends in \<^verbatim>\<open>bad_alloc\<close>.
\<close>

theorem aligned_alloc_aligned_or_bad_alloc:
  assumes "posix_memalign_contract posix_memalign"
  shows "((aligned_alloc posix_memalign sizeof_T n alignment = Inl bad_alloc
             \<and> fst (posix_memalign alignment (n * sizeof_T)) \<noteq> 0)
          \<or> (\<exists>ptr. aligned_alloc posix_memalign sizeof_T n alignment = Inr ptr
             \<and> fst (posix_memalign alignment (n * sizeof_T)) = 0
             \<and> valid_alignment alignment
             \<and> unat ptr mod unat alignment = 0))
       \<and> (\<not> valid_alignment alignment \<longrightarrow>
             aligned_alloc posix_memalign sizeof_T n alignment = Inl bad_alloc)"
proof (cases "fst (posix_memalign alignment (n * sizeof_T)) = 0")
  case True
  then have "valid_alignment alignment
      \<and> unat (snd (posix_memalign alignment (n * sizeof_T))) mod unat alignment = 0"
    using assms unfolding posix_memalign_contract_def by blast
  moreover have "aligned_alloc posix_memalign sizeof_T n alignment
                 = Inr (snd (posix_memalign alignment (n * sizeof_T)))"
    using True by (cases "posix_memalign alignment (n * sizeof_T)") (simp add: aligned_alloc_def)
  ultimately show ?thesis using True by simp
next
  case False
  then have "aligned_alloc posix_memalign sizeof_T n alignment = Inl bad_alloc"
    by (cases "posix_memalign alignment (n * sizeof_T)") (simp add: aligned_alloc_def)
  then show ?thesis using False by simp
qed

theorem aligned_alloc_aligned_or_bad_alloc_witness:
  "posix_memalign_contract arena_memalign
   \<and> aligned_alloc arena_memalign 4 8 32 = Inr 65568
   \<and> unat (65568 :: size_t) mod unat (32 :: size_t) = 0
   \<and> \<not> valid_alignment 24
   \<and> aligned_alloc arena_memalign 4 8 24 = Inl bad_alloc"
proof -
  note t = aligned_alloc_aligned_or_bad_alloc [OF arena_memalign_contract]
  have v: "\<not> valid_alignment 24" by (simp add: valid_alignment_def)
  have r: "fst (arena_memalign 32 (8 * 4)) = 0"
    by (simp add: arena_memalign_def valid_alignment_def)
  have a: "aligned_alloc arena_memalign 4 8 32 = Inr 65568"
    using t [of 4 8 32, THEN conjunct1] r
    by (simp add: aligned_alloc_def arena_memalign_def valid_alignment_def)
  have b: "aligned_alloc arena_memalign 4 8 24 = Inl bad_alloc"
    using t [of 4 8 24, THEN conjunct2, rule_format, OF v] .
  show ?thesis using arena_memalign_contract a b v by simp
qed

section \<open>Proofs: benchmark harness\<close>

declare timed_loop.simps [simp del]

lemma timed_loop_funpow:
  "timed_loop i iterations body s = (body ^^ nat (iterations - i)) s"
proof (induction i iterations body s rule: timed_loop.induct)
  case (1 i iterations body s)
  show ?case
  proof (cases "i < iterations")
    case True
    then have n: "nat (iterations - i) = Suc (nat (iterations - (i + 1)))" by simp
    have "timed_loop i iterations body s = timed_loop (i + 1) iterations body (body s)"
      using True by (subst timed_loop.simps) simp
    also have "\<dots> = (body ^^ nat (iterations - (i + 1))) (body s)"
      using True by (rule "1.IH")
    also have "\<dots> = (body ^^ nat (iterations - i)) s"
      unfolding n by (simp add: funpow_swap1)
    finally show ?thesis .
  next
    case False
    then show ?thesis by (subst timed_loop.simps) simp
  qed
qed

lemma calls_scalar:
  "(call_scalar_func f ^^ k) s =
     s\<lparr>world := (f ^^ k) (world s), trace := trace s @ replicate k Call_scalar\<rparr>"
proof (induction k)
  case 0
  show ?case by simp
next
  case (Suc k)
  have "(call_scalar_func f ^^ Suc k) s = call_scalar_func f ((call_scalar_func f ^^ k) s)" by simp
  also have "\<dots> = call_scalar_func f
      (s\<lparr>world := (f ^^ k) (world s), trace := trace s @ replicate k Call_scalar\<rparr>)"
    by (simp only: Suc)
  also have "\<dots> = s\<lparr>world := (f ^^ Suc k) (world s), trace := trace s @ replicate (Suc k) Call_scalar\<rparr>"
    by (simp add: call_scalar_func_def replicate_append_same)
  finally show ?case .
qed

lemma calls_simd:
  "(call_simd_func f ^^ k) s =
     s\<lparr>world := (f ^^ k) (world s), trace := trace s @ replicate k Call_simd\<rparr>"
proof (induction k)
  case 0
  show ?case by simp
next
  case (Suc k)
  have "(call_simd_func f ^^ Suc k) s = call_simd_func f ((call_simd_func f ^^ k) s)" by simp
  also have "\<dots> = call_simd_func f
      (s\<lparr>world := (f ^^ k) (world s), trace := trace s @ replicate k Call_simd\<rparr>)"
    by (simp only: Suc)
  also have "\<dots> = s\<lparr>world := (f ^^ Suc k) (world s), trace := trace s @ replicate (Suc k) Call_simd\<rparr>"
    by (simp add: call_simd_func_def replicate_append_same)
  finally show ?case .
qed

text \<open>
  Claim C8. The harness calls the scalar callable once and the vector callable once as
  warm-up, reads the clock, calls the scalar callable \<open>iterations\<close> times (no times when
  \<open>iterations\<close> is negative), reads the clock twice, calls the vector callable
  \<open>iterations\<close> times and reads the clock again. It reports the two elapsed tick counts
  divided by 1000 towards zero, as microseconds, and the quotient of the scalar by the
  vector microseconds (an infinity or NaN when the vector count is zero), all written out
  here in plain arithmetic. The program state it leaves is the one these calls produce:
  the harness changes nothing itself and its result does not depend on the state.
\<close>

theorem benchmark_runs_warmup_then_iterations:
  "benchmark_comparison clock lbl scalar_func simd_func iterations \<lparr>world = w, trace = []\<rparr> =
     (let n = nat iterations;
          t0 = [Call_scalar, Call_simd];
          t1 = t0 @ [Clock_now] @ replicate n Call_scalar;
          t2 = t1 @ [Clock_now];
          t3 = t2 @ [Clock_now] @ replicate n Call_simd;
          scalar_ticks = clock t1 - clock t0;
          simd_ticks = clock t3 - clock t2;
          scalar_duration = sgn scalar_ticks * (\<bar>scalar_ticks\<bar> div 1000);
          simd_duration = sgn simd_ticks * (\<bar>simd_ticks\<bar> div 1000)
      in (\<lparr>label = lbl, scalar_micros = scalar_duration, simd_micros = simd_duration,
           speedup =
             (if simd_duration \<noteq> 0
              then Finite (rat_of_int scalar_duration / rat_of_int simd_duration)
              else if scalar_duration = 0 then NaN
              else if 0 < scalar_duration then Pos_inf else Neg_inf)\<rparr>,
          \<lparr>world = (simd_func ^^ n) ((scalar_func ^^ n) (simd_func (scalar_func w))),
           trace = t3 @ [Clock_now]\<rparr>))"
  unfolding benchmark_comparison_def
  by (simp add: Let_def timed_loop_funpow calls_scalar calls_simd clock_now_def
      call_scalar_func_def call_simd_func_def duration_cast_microseconds_def double_div_def)

theorem benchmark_runs_warmup_then_iterations_witness:
  "benchmark_comparison
     (\<lambda>t. 2500 * int (count_list t Call_scalar) + 1500 * int (count_list t Call_simd))
     ''Clamping'' (\<lambda>w. w + 1) (\<lambda>w. w * 2) 3 \<lparr>world = (0::int), trace = []\<rparr>
   = (\<lparr>label = ''Clamping'', scalar_micros = 7, simd_micros = 4, speedup = Finite (7 / 4)\<rparr>,
      \<lparr>world = 40,
       trace = [Call_scalar, Call_simd, Clock_now, Call_scalar, Call_scalar, Call_scalar,
                Clock_now, Clock_now, Call_simd, Call_simd, Call_simd, Clock_now]\<rparr>)
   \<and> benchmark_comparison (\<lambda>t. 2500 * int (count_list t Call_scalar))
     ''Clamping'' (\<lambda>w. w + 1) (\<lambda>w. w * 2) 3 \<lparr>world = (0::int), trace = []\<rparr>
   = (\<lparr>label = ''Clamping'', scalar_micros = 7, simd_micros = 0, speedup = Pos_inf\<rparr>,
      \<lparr>world = 40,
       trace = [Call_scalar, Call_simd, Clock_now, Call_scalar, Call_scalar, Call_scalar,
                Clock_now, Clock_now, Call_simd, Call_simd, Call_simd, Clock_now]\<rparr>)"
  unfolding benchmark_runs_warmup_then_iterations
  by (simp add: Let_def eval_nat_numeral)

end
